theory Spec2Isabelle
  imports Complex_Main
begin

section \<open>Character-control core of \<open>src/main.js\<close>\<close>

text \<open>
  The program is a single JavaScript class \<open>Game\<close>. Its numbers are IEEE doubles.
  The definitions of the first part read them as real numbers and every operation as
  the exact one. The statements that bound a distance by a tolerance are about the
  collision resolver as doubles compute it: there every operation is followed by a
  rounding function, of which the theorems assume the error bound of IEEE 754 and
  nothing else. Infinities and NaN are outside both readings. The vector classes
  \<open>THREE.Vector2\<close> and \<open>THREE.Vector3\<close> and \<open>THREE.MathUtils.lerp\<close> belong to
  the three.js library the file imports; the few methods the code calls are written out
  here with the bodies three.js gives them.
\<close>

subsection \<open>Vectors of three.js\<close>

record Vector2 =
  vx :: real
  vy :: real

record Vector3 =
  x :: real
  y :: real
  z :: real

text \<open>\<open>new THREE.Vector2()\<close>, \<open>new THREE.Vector3()\<close>: all components zero.\<close>

definition zero2 :: Vector2 where
  "zero2 = \<lparr>vx = 0, vy = 0\<rparr>"

definition zero3 :: Vector3 where
  "zero3 = \<lparr>x = 0, y = 0, z = 0\<rparr>"

text \<open>\<open>Vector2.sub(v)\<close>: componentwise difference.\<close>

definition sub2 :: "Vector2 \<Rightarrow> Vector2 \<Rightarrow> Vector2" where
  "sub2 a b = \<lparr>vx = vx a - vx b, vy = vy a - vy b\<rparr>"

text \<open>\<open>lengthSq()\<close> and \<open>length()\<close>.\<close>

definition lengthSq2 :: "Vector2 \<Rightarrow> real" where
  "lengthSq2 a = vx a * vx a + vy a * vy a"

definition length2 :: "Vector2 \<Rightarrow> real" where
  "length2 a = sqrt (vx a * vx a + vy a * vy a)"

definition length3 :: "Vector3 \<Rightarrow> real" where
  "length3 a = sqrt (x a * x a + y a * y a + z a * z a)"

text \<open>\<open>multiplyScalar(s)\<close>; \<open>divideScalar(s)\<close> is \<open>multiplyScalar(1 / s)\<close>.\<close>

definition multiplyScalar2 :: "Vector2 \<Rightarrow> real \<Rightarrow> Vector2" where
  "multiplyScalar2 a s = \<lparr>vx = vx a * s, vy = vy a * s\<rparr>"

definition divideScalar2 :: "Vector2 \<Rightarrow> real \<Rightarrow> Vector2" where
  "divideScalar2 a s = multiplyScalar2 a (1 / s)"

definition multiplyScalar3 :: "Vector3 \<Rightarrow> real \<Rightarrow> Vector3" where
  "multiplyScalar3 a s = \<lparr>x = x a * s, y = y a * s, z = z a * s\<rparr>"

definition divideScalar3 :: "Vector3 \<Rightarrow> real \<Rightarrow> Vector3" where
  "divideScalar3 a s = multiplyScalar3 a (1 / s)"

text \<open>
  \<open>normalize()\<close> is \<open>this.divideScalar(this.length() || 1)\<close>: a vector of length zero
  is divided by one and stays the zero vector.
\<close>

definition normalize2 :: "Vector2 \<Rightarrow> Vector2" where
  "normalize2 a = divideScalar2 a (if length2 a = 0 then 1 else length2 a)"

definition normalize3 :: "Vector3 \<Rightarrow> Vector3" where
  "normalize3 a = divideScalar3 a (if length3 a = 0 then 1 else length3 a)"

text \<open>\<open>Vector3.add(v)\<close>.\<close>

definition add3 :: "Vector3 \<Rightarrow> Vector3 \<Rightarrow> Vector3" where
  "add3 a b = \<lparr>x = x a + x b, y = y a + y b, z = z a + z b\<rparr>"

text \<open>
  \<open>Vector3.lerp(v, alpha)\<close> is \<open>this.x += (v.x - this.x) * alpha\<close> on each component;
  \<open>alpha\<close> is used as given.
\<close>

definition lerp3 :: "Vector3 \<Rightarrow> Vector3 \<Rightarrow> real \<Rightarrow> Vector3" where
  "lerp3 a b alpha =
     \<lparr>x = x a + (x b - x a) * alpha,
      y = y a + (y b - y a) * alpha,
      z = z a + (z b - z a) * alpha\<rparr>"

text \<open>\<open>THREE.MathUtils.lerp(x, y, t)\<close> is \<open>(1 - t) * x + t * y\<close>.\<close>

definition lerp :: "real \<Rightarrow> real \<Rightarrow> real \<Rightarrow> real" where
  "lerp a b t = (1 - t) * a + t * b"

subsection \<open>Static obstacles and the collision resolver\<close>

text \<open>An entry of \<open>this.colliders\<close>: \<open>{ position: pos, radius: r }\<close>.\<close>

record collider =
  position :: Vector3
  radius :: real

text \<open>
  Planar distance of a point to the centre of a collider, the value \<open>distance\<close> of
  \<open>checkCollisions\<close>.
\<close>

definition planarDistance :: "Vector3 \<Rightarrow> collider \<Rightarrow> real" where
  "planarDistance p c =
     sqrt ((x p - x (position c)) * (x p - x (position c))
         + (z p - z (position c)) * (z p - z (position c)))"

text \<open>The body of the \<open>for\<close> loop of \<open>checkCollisions\<close>, for one collider.\<close>

definition collideStep :: "real \<Rightarrow> Vector3 \<Rightarrow> collider \<Rightarrow> Vector3" where
  "collideStep playerRadius newPosition c =
     (let dx = x newPosition - x (position c);
          dz = z newPosition - z (position c);
          distance = sqrt (dx * dx + dz * dz);
          minDistance = playerRadius + radius c
      in if distance < minDistance then
           (let overlap = minDistance - distance;
                pushVector = multiplyScalar3 (normalize3 \<lparr>x = dx, y = 0, z = dz\<rparr>) overlap
            in add3 newPosition pushVector)
         else newPosition)"

text \<open>
  \<open>checkCollisions(newPosition)\<close>. The first argument says whether \<open>this.player.mesh\<close>
  is set: without a mesh the method returns at once. The colliders are visited in
  list order and the position is updated in place, which is a left fold.
\<close>

definition checkCollisions :: "bool \<Rightarrow> real \<Rightarrow> collider list \<Rightarrow> Vector3 \<Rightarrow> Vector3" where
  "checkCollisions hasMesh playerRadius colliders newPosition =
     (if \<not> hasMesh then newPosition
      else foldl (collideStep playerRadius) newPosition colliders)"

subsection \<open>Game state\<close>

text \<open>
  The fields of \<open>Game\<close> that the input handlers and the per-frame update read or
  write, named by their path in the source (\<open>this.input.touch.move.id\<close> is
  \<open>touch_move_id\<close>). A slot identifier is \<open>null\<close> or a number; the joystick is a DOM
  element or \<open>null\<close>, of which only the presence matters; \<open>player.mesh\<close> is \<open>null\<close>
  until the model is loaded, after which its \<open>position\<close> is \<open>player_position\<close>.
  The renderer, the scene, the camera object, the mesh rotation and the animation mixer
  are external objects and are left out.
\<close>

record game =
  player_hasMesh :: bool
  player_position :: Vector3
  player_velocity :: Vector3
  player_baseSpeed :: real
  player_sprintSpeed :: real
  player_currentSpeed :: real
  player_collisionRadius :: real
  cameraControls_phi :: real
  cameraControls_theta :: real
  cameraControls_sensitivity :: real
  input_move :: Vector2
  input_look :: Vector2
  input_keys :: "string set"
  touch_move_id :: "int option"
  touch_move_start :: Vector2
  touch_move_current :: Vector2
  touch_move_joystick :: bool
  touch_look_id :: "int option"
  touch_look_start :: Vector2
  colliders :: "collider list"
  isTouchDevice :: bool

text \<open>
  The state the constructor builds. Whether the device is a touch device and which
  colliders \<open>generateScenery\<close> draws at random are parameters.
\<close>

definition initialGame :: "bool \<Rightarrow> collider list \<Rightarrow> game" where
  "initialGame touchDevice cs =
     \<lparr>player_hasMesh = False,
      player_position = zero3,
      player_velocity = zero3,
      player_baseSpeed = 2,
      player_sprintSpeed = 5,
      player_currentSpeed = 0,
      player_collisionRadius = 2 / 5,
      cameraControls_phi = 0,
      cameraControls_theta = - pi / 4,
      cameraControls_sensitivity = 3 / 500,
      input_move = zero2,
      input_look = zero2,
      input_keys = {},
      touch_move_id = None,
      touch_move_start = zero2,
      touch_move_current = zero2,
      touch_move_joystick = False,
      touch_look_id = None,
      touch_look_start = zero2,
      colliders = cs,
      isTouchDevice = touchDevice\<rparr>"

subsection \<open>Input handlers\<close>

text \<open>An entry of \<open>event.changedTouches\<close>.\<close>

record touch =
  "identifier" :: int
  clientX :: real
  clientY :: real

text \<open>What a handler can throw: reading a property of \<open>null\<close>.\<close>

datatype error = TypeError

text \<open>\<open>onMouseMove(event)\<close>, with \<open>event.movementX\<close> and \<open>event.movementY\<close>.\<close>

definition onMouseMove :: "game \<Rightarrow> real \<times> real \<Rightarrow> game" where
  "onMouseMove s ev =
     s\<lparr>input_look :=
         \<lparr>vx = vx (input_look s) + fst ev * cameraControls_sensitivity s,
          vy = vy (input_look s) + snd ev * cameraControls_sensitivity s\<rparr>\<rparr>"

text \<open>
  \<open>onTouchStart(event)\<close>: the loop body for one touch, then the loop. The argument
  \<open>innerWidth\<close> is \<open>window.innerWidth\<close>. \<open>createJoystick\<close> leaves a joystick element
  in the move slot.
\<close>

definition touchStartStep :: "real \<Rightarrow> game \<Rightarrow> touch \<Rightarrow> game" where
  "touchStartStep innerWidth s t =
     (let isLeftSide = clientX t < innerWidth / 2
      in if isLeftSide \<and> touch_move_id s = None then
           s\<lparr>touch_move_id := Some (identifier t),
             touch_move_start := \<lparr>vx = clientX t, vy = clientY t\<rparr>,
             touch_move_current := \<lparr>vx = clientX t, vy = clientY t\<rparr>,
             touch_move_joystick := True\<rparr>
         else if \<not> isLeftSide \<and> touch_look_id s = None then
           s\<lparr>touch_look_id := Some (identifier t),
             touch_look_start := \<lparr>vx = clientX t, vy = clientY t\<rparr>\<rparr>
         else s)"

definition onTouchStart :: "real \<Rightarrow> game \<Rightarrow> touch list \<Rightarrow> game" where
  "onTouchStart innerWidth s touches = foldl (touchStartStep innerWidth) s touches"

text \<open>
  \<open>onTouchMove(event)\<close>: the loop body for one touch. In the joystick branch the
  handler reads \<open>this.input.touch.move.joystick.querySelector\<close>, which throws when the
  joystick is \<open>null\<close>; the touch's position has been stored by then, and the state at
  the throw is returned with the error. The style of the knob is a DOM effect and is
  left out. \<open>maxDist\<close> is the constant 60.
\<close>

definition touchMoveStep :: "game \<Rightarrow> touch \<Rightarrow> (error \<times> game) + game" where
  "touchMoveStep s t =
     (if Some (identifier t) = touch_move_id s then
        (let s1 = s\<lparr>touch_move_current := \<lparr>vx = clientX t, vy = clientY t\<rparr>\<rparr>;
             diff = sub2 (touch_move_current s1) (touch_move_start s1);
             maxDist = 60;
             dist = min (length2 diff) maxDist
         in if \<not> touch_move_joystick s1 then Inl (TypeError, s1)
            else
              (let inputVec = normalize2 diff;
                   speedRatio = dist / maxDist
               in Inr (s1\<lparr>input_move := \<lparr>vx = - vx inputVec, vy = - vy inputVec\<rparr>,
                         player_currentSpeed :=
                           lerp (player_baseSpeed s1) (player_sprintSpeed s1) speedRatio\<rparr>)))
      else if Some (identifier t) = touch_look_id s then
        (let dx = clientX t - vx (touch_look_start s);
             dy = clientY t - vy (touch_look_start s)
         in Inr (s\<lparr>input_look :=
                     \<lparr>vx = vx (input_look s) - dx * cameraControls_sensitivity s,
                      vy = vy (input_look s) + dy * cameraControls_sensitivity s\<rparr>,
                   touch_look_start := \<lparr>vx = clientX t, vy = clientY t\<rparr>\<rparr>))
      else Inr s)"

text \<open>The loop of \<open>onTouchMove\<close>: a throw ends the handler.\<close>

fun onTouchMove :: "game \<Rightarrow> touch list \<Rightarrow> (error \<times> game) + game" where
  "onTouchMove s [] = Inr s"
| "onTouchMove s (t # ts) =
     (case touchMoveStep s t of Inl e \<Rightarrow> Inl e | Inr s' \<Rightarrow> onTouchMove s' ts)"

text \<open>
  \<open>onTouchEnd(event)\<close>, also registered for \<open>touchcancel\<close>. \<open>removeJoystick\<close> tests
  the joystick before it removes it, so nothing here can throw.
\<close>

definition touchEndStep :: "game \<Rightarrow> touch \<Rightarrow> game" where
  "touchEndStep s t =
     (if Some (identifier t) = touch_move_id s then
        s\<lparr>input_move := \<lparr>vx = 0, vy = 0\<rparr>,
          player_currentSpeed := 0,
          touch_move_joystick := False,
          touch_move_id := None\<rparr>
      else if Some (identifier t) = touch_look_id s then
        s\<lparr>touch_look_id := None\<rparr>
      else s)"

definition onTouchEnd :: "game \<Rightarrow> touch list \<Rightarrow> game" where
  "onTouchEnd s touches = foldl touchEndStep s touches"

subsection \<open>The per-frame update\<close>

text \<open>
  \<open>updateInput(deltaTime)\<close>; \<open>deltaTime\<close> is not used by the method. The four key
  tests assign to the move vector one after the other.
\<close>

definition updateInput :: "game \<Rightarrow> game" where
  "updateInput s =
     (let s1 =
        (if \<not> isTouchDevice s then
           (let m0 = \<lparr>vx = 0, vy = 0\<rparr>;
                m1 = (if ''KeyW'' \<in> input_keys s then m0\<lparr>vy := 1\<rparr> else m0);
                m2 = (if ''KeyS'' \<in> input_keys s then m1\<lparr>vy := - 1\<rparr> else m1);
                m3 = (if ''KeyA'' \<in> input_keys s then m2\<lparr>vx := - 1\<rparr> else m2);
                m4 = (if ''KeyD'' \<in> input_keys s then m3\<lparr>vx := 1\<rparr> else m3)
            in s\<lparr>input_move := m4,
                 player_currentSpeed :=
                   (if ''ShiftLeft'' \<in> input_keys s then player_sprintSpeed s
                    else player_baseSpeed s)\<rparr>)
         else s);
          s2 = s1\<lparr>cameraControls_phi := vy (input_look s1)\<rparr>;
          s3 = s2\<lparr>cameraControls_theta := vx (input_look s2)\<rparr>
      in s3\<lparr>cameraControls_phi := max (- pi / 3) (min (pi / 3) (cameraControls_phi s3))\<rparr>)"

text \<open>
  \<open>applyAxisAngle(new THREE.Vector3(0, 1, 0), angle)\<close>: the rotation about the y axis.
\<close>

definition applyAxisAngleY :: "Vector3 \<Rightarrow> real \<Rightarrow> Vector3" where
  "applyAxisAngleY a angle =
     \<lparr>x = x a * cos angle + z a * sin angle,
      y = y a,
      z = z a * cos angle - x a * sin angle\<rparr>"

text \<open>
  \<open>updatePlayer(deltaTime)\<close>, which \<open>update\<close> calls only when the mesh is set. The
  argument \<open>angle\<close> is \<open>Math.atan2(cameraDirection.x, cameraDirection.z)\<close>, read from
  the camera object. The turn of the mesh and the animation after the position is
  stored write to external objects only.
\<close>

definition updatePlayer :: "real \<Rightarrow> real \<Rightarrow> game \<Rightarrow> game" where
  "updatePlayer angle deltaTime s =
     (let velocity =
        (if lengthSq2 (input_move s) = 0 then
           lerp3 (player_velocity s) \<lparr>x = 0, y = 0, z = 0\<rparr> (10 * deltaTime)
         else
           (let moveDirection =
                  applyAxisAngleY
                    (normalize3 \<lparr>x = vx (input_move s), y = 0, z = vy (input_move s)\<rparr>) angle;
                speed =
                  (if isTouchDevice s then player_currentSpeed s
                   else if length2 (input_move s) > 0 then player_currentSpeed s else 0);
                targetVelocity = multiplyScalar3 moveDirection speed
            in lerp3 (player_velocity s) targetVelocity (10 * deltaTime)));
          moveDelta = multiplyScalar3 velocity deltaTime;
          newPosition = add3 (player_position s) moveDelta
      in s\<lparr>player_velocity := velocity,
           player_position :=
             checkCollisions (player_hasMesh s) (player_collisionRadius s) (colliders s)
               newPosition\<rparr>)"

text \<open>\<open>update(deltaTime)\<close>, without the camera and the animation mixer.\<close>

definition update :: "real \<Rightarrow> real \<Rightarrow> game \<Rightarrow> game" where
  "update angle deltaTime s =
     (let s1 = updateInput s
      in if player_hasMesh s1 then updatePlayer angle deltaTime s1 else s1)"

text \<open>
  A run of frames with the same \<open>deltaTime\<close> and no input event in between; the list
  holds the camera angle of each frame.
\<close>

fun frames :: "real \<Rightarrow> game \<Rightarrow> real list \<Rightarrow> game" where
  "frames deltaTime s [] = s"
| "frames deltaTime s (a # as) = frames deltaTime (update a deltaTime s) as"

subsection \<open>The resolver in rounded arithmetic\<close>

text \<open>
  What is assumed of the rounding function \<open>rnd\<close> of the number format: zero is
  rounded to zero, and a value of magnitude at most \<open>Omega\<close> is rounded with a
  relative error of at most \<open>u\<close> plus an absolute error of at most \<open>eta\<close>. The
  doubles of IEEE 754 with rounding to nearest satisfy this with \<open>u = 2^-53\<close>,
  \<open>eta = 2^-1074\<close> (the error of a result in the subnormal range) and
  \<open>Omega = 2^1023\<close> (below the overflow threshold).
\<close>

definition ieee :: "(real \<Rightarrow> real) \<Rightarrow> real \<Rightarrow> real \<Rightarrow> real \<Rightarrow> bool" where
  "ieee rnd u eta Omega \<longleftrightarrow>
     rnd 0 = 0 \<and> (\<forall>t. \<bar>t\<bar> \<le> Omega \<longrightarrow> \<bar>rnd t - t\<bar> \<le> u * \<bar>t\<bar> + eta)"

text \<open>
  The methods of \<open>THREE.Vector3\<close> that \<open>checkCollisions\<close> calls, and the body of
  its loop, with the result of every arithmetic operation and of \<open>Math.sqrt\<close>
  rounded. The sums of \<open>length()\<close> associate to the left, as JavaScript evaluates
  them; comparisons are exact. With the identity for \<open>rnd\<close> these are the
  definitions above.
\<close>

definition length3Fl :: "(real \<Rightarrow> real) \<Rightarrow> Vector3 \<Rightarrow> real" where
  "length3Fl rnd a = rnd (sqrt (rnd (rnd (rnd (x a * x a) + rnd (y a * y a)) + rnd (z a * z a))))"

definition multiplyScalar3Fl :: "(real \<Rightarrow> real) \<Rightarrow> Vector3 \<Rightarrow> real \<Rightarrow> Vector3" where
  "multiplyScalar3Fl rnd a s = \<lparr>x = rnd (x a * s), y = rnd (y a * s), z = rnd (z a * s)\<rparr>"

definition divideScalar3Fl :: "(real \<Rightarrow> real) \<Rightarrow> Vector3 \<Rightarrow> real \<Rightarrow> Vector3" where
  "divideScalar3Fl rnd a s = multiplyScalar3Fl rnd a (rnd (1 / s))"

definition normalize3Fl :: "(real \<Rightarrow> real) \<Rightarrow> Vector3 \<Rightarrow> Vector3" where
  "normalize3Fl rnd a =
     divideScalar3Fl rnd a (if length3Fl rnd a = 0 then 1 else length3Fl rnd a)"

definition add3Fl :: "(real \<Rightarrow> real) \<Rightarrow> Vector3 \<Rightarrow> Vector3 \<Rightarrow> Vector3" where
  "add3Fl rnd a b = \<lparr>x = rnd (x a + x b), y = rnd (y a + y b), z = rnd (z a + z b)\<rparr>"

definition collideStepFl :: "(real \<Rightarrow> real) \<Rightarrow> real \<Rightarrow> Vector3 \<Rightarrow> collider \<Rightarrow> Vector3" where
  "collideStepFl rnd playerRadius newPosition c =
     (let dx = rnd (x newPosition - x (position c));
          dz = rnd (z newPosition - z (position c));
          distance = rnd (sqrt (rnd (rnd (dx * dx) + rnd (dz * dz))));
          minDistance = rnd (playerRadius + radius c)
      in if distance < minDistance then
           (let overlap = rnd (minDistance - distance);
                pushVector =
                  multiplyScalar3Fl rnd (normalize3Fl rnd \<lparr>x = dx, y = 0, z = dz\<rparr>) overlap
            in add3Fl rnd newPosition pushVector)
         else newPosition)"

definition checkCollisionsFl ::
  "(real \<Rightarrow> real) \<Rightarrow> bool \<Rightarrow> real \<Rightarrow> collider list \<Rightarrow> Vector3 \<Rightarrow> Vector3" where
  "checkCollisionsFl rnd hasMesh playerRadius cs newPosition =
     (if \<not> hasMesh then newPosition
      else foldl (collideStepFl rnd playerRadius) newPosition cs)"

text \<open>
  Names for the terms of the estimates: the length of a planar vector, the rounded
  \<open>distance\<close> of the loop body and the rounded \<open>length()\<close> of \<open>(dx, 0, dz)\<close>.
\<close>

definition norm2 :: "real \<Rightarrow> real \<Rightarrow> real" where
  "norm2 a b = sqrt (a * a + b * b)"

definition distFl :: "(real \<Rightarrow> real) \<Rightarrow> real \<Rightarrow> real \<Rightarrow> real" where
  "distFl rnd a b = rnd (sqrt (rnd (rnd (a * a) + rnd (b * b))))"

definition lenFl :: "(real \<Rightarrow> real) \<Rightarrow> real \<Rightarrow> real \<Rightarrow> real" where
  "lenFl rnd a b = rnd (sqrt (rnd (rnd (rnd (a * a) + rnd (0 * 0)) + rnd (b * b))))"

text \<open>How far a position has moved: in the ground plane, and in space.\<close>

definition planarMove :: "Vector3 \<Rightarrow> Vector3 \<Rightarrow> real" where
  "planarMove p q = norm2 (x q - x p) (z q - z p)"

definition moved :: "Vector3 \<Rightarrow> Vector3 \<Rightarrow> real" where
  "moved p q =
     sqrt ((x q - x p) * (x q - x p) + (y q - y p) * (y q - y p) + (z q - z p) * (z q - z p))"

subsection \<open>Conditions on the numbers and on the obstacles\<close>

text \<open>
  The sizes the estimates need: \<open>rnd\<close> rounds as above with a unit roundoff \<open>u\<close> of
  at most 1/100; \<open>delta\<close> is a length so far above the underflow threshold that
  \<open>eta\<close> is at most \<open>u * delta\<close> and \<open>u * delta^2\<close>; \<open>B\<close> is a length of at
  least 1 so far below the overflow threshold that \<open>100 * B^2\<close> and \<open>2 / delta\<close>
  are at most \<open>Omega\<close>, and \<open>eta * B\<close> is at most \<open>u\<close>. For doubles
  \<open>delta = 2^-300\<close> and \<open>B = 25000\<close> are such sizes.
\<close>

definition numPre :: "(real \<Rightarrow> real) \<Rightarrow> real \<Rightarrow> real \<Rightarrow> real \<Rightarrow> real \<Rightarrow> real \<Rightarrow> bool" where
  "numPre rnd u eta Omega delta B \<longleftrightarrow>
     ieee rnd u eta Omega \<and> 0 < u \<and> 100 * u \<le> 1 \<and> 0 \<le> eta \<and> eta \<le> u * delta
     \<and> eta \<le> u * (delta * delta) \<and> eta * B \<le> u \<and> 0 < delta \<and> 1 \<le> B
     \<and> 2 / delta \<le> Omega \<and> 100 * (B * B) \<le> Omega"

text \<open>
  A position and a collider within these sizes: the planar coordinates are at most
  \<open>B\<close> in magnitude, the sum of the two radii lies between \<open>delta\<close> and \<open>B\<close>, and
  the position is at least \<open>delta\<close> from the collider's centre.
\<close>

definition stepPre ::
  "(real \<Rightarrow> real) \<Rightarrow> real \<Rightarrow> real \<Rightarrow> real \<Rightarrow> real \<Rightarrow> real \<Rightarrow> real \<Rightarrow> Vector3 \<Rightarrow> collider \<Rightarrow> bool" where
  "stepPre rnd u eta Omega delta B R p c \<longleftrightarrow>
     numPre rnd u eta Omega delta B
     \<and> \<bar>x p\<bar> \<le> B \<and> \<bar>z p\<bar> \<le> B \<and> \<bar>x (position c)\<bar> \<le> B \<and> \<bar>z (position c)\<bar> \<le> B
     \<and> delta \<le> R + radius c \<and> R + radius c \<le> B \<and> delta \<le> planarDistance p c"

text \<open>
  A candidate and a list of colliders within the sizes, with room for the pushed
  position, whose coordinates can reach \<open>5 * B\<close>.
\<close>

definition scenePre ::
  "(real \<Rightarrow> real) \<Rightarrow> real \<Rightarrow> real \<Rightarrow> real \<Rightarrow> real \<Rightarrow> real \<Rightarrow> real \<Rightarrow> Vector3 \<Rightarrow> collider list \<Rightarrow> bool" where
  "scenePre rnd u eta Omega delta B R p cs \<longleftrightarrow>
     numPre rnd u eta Omega delta (5 * B) \<and> 1 \<le> B
     \<and> \<bar>x p\<bar> \<le> B \<and> \<bar>z p\<bar> \<le> B
     \<and> (\<forall>c \<in> set cs. \<bar>x (position c)\<bar> \<le> B \<and> \<bar>z (position c)\<bar> \<le> B
            \<and> delta \<le> R + radius c \<and> R + radius c \<le> B \<and> delta \<le> planarDistance p c)"

text \<open>
  Two colliders are apart by \<open>gap\<close> for a body of radius \<open>r\<close> when their centres
  are at least the two radii, the body's diameter and \<open>gap\<close> from each other: the
  body fits between them with \<open>gap\<close> to spare. A list is separated by \<open>gap\<close> when
  this holds for every two of its entries.
\<close>

definition apartBy :: "real \<Rightarrow> real \<Rightarrow> collider \<Rightarrow> collider \<Rightarrow> bool" where
  "apartBy gap r a b \<longleftrightarrow>
     radius a + radius b + 2 * r + gap \<le> planarDistance (position a) b"

fun separatedBy :: "real \<Rightarrow> real \<Rightarrow> collider list \<Rightarrow> bool" where
  "separatedBy gap r [] = True"
| "separatedBy gap r (c # cs) = ((\<forall>b \<in> set cs. apartBy gap r c b) \<and> separatedBy gap r cs)"

text \<open>
  A rounding function with the largest relative error that doubles allow, for
  instances of the theorems.
\<close>

definition worstRound :: "real \<Rightarrow> real" where
  "worstRound t = t + t / 2 ^ 53"

subsection \<open>Concrete scenes\<close>

text \<open>A collider centred on the x axis, and a point of the x axis.\<close>

definition onAxis :: "real \<Rightarrow> real \<Rightarrow> collider" where
  "onAxis cx r = \<lparr>position = \<lparr>x = cx, y = 0, z = 0\<rparr>, radius = r\<rparr>"

definition pointOnAxis :: "real \<Rightarrow> Vector3" where
  "pointOnAxis px = \<lparr>x = px, y = 0, z = 0\<rparr>"

subsection \<open>The specification's formulas and concrete states\<close>

text \<open>
  The move axis as the specification words it: +1 if the positive key is held, plus -1
  if the negative key is held.
\<close>

definition spec_axis :: "bool \<Rightarrow> bool \<Rightarrow> real" where
  "spec_axis positiveHeld negativeHeld =
     (if positiveHeld then 1 else 0) + (if negativeHeld then - 1 else 0)"

text \<open>
  The decay of the velocity as the specification words it:
  \<open>lerp(velocity, 0, min(1, k_decel * dt))\<close> with \<open>k_decel = 10\<close>.
\<close>

definition spec_decay :: "Vector3 \<Rightarrow> real \<Rightarrow> Vector3" where
  "spec_decay velocity deltaTime =
     lerp3 velocity \<lparr>x = 0, y = 0, z = 0\<rparr> (min 1 (10 * deltaTime))"

text \<open>
  No move input: on a touch device the stored move vector has zero magnitude (only the
  touch handlers write it); with a keyboard none of the four move keys is held.
\<close>

definition moveIdle :: "game \<Rightarrow> bool" where
  "moveIdle s \<longleftrightarrow>
     (if isTouchDevice s then lengthSq2 (input_move s) = 0
      else ''KeyW'' \<notin> input_keys s \<and> ''KeyS'' \<notin> input_keys s
         \<and> ''KeyA'' \<notin> input_keys s \<and> ''KeyD'' \<notin> input_keys s)"

text \<open>
  A touch device, 800 pixels wide, after a touch with identifier 7 has started at
  (100, 300) in the left half: the joystick is held.
\<close>

definition joystickHeld :: game where
  "joystickHeld =
     onTouchStart 800 (initialGame True []) [\<lparr>identifier = 7, clientX = 100, clientY = 300\<rparr>]"

text \<open>A keyboard device with the mesh loaded, no key held and velocity (1, 0, 0).\<close>

definition coasting :: game where
  "coasting =
     (initialGame False [])\<lparr>player_hasMesh := True, player_velocity := \<lparr>x = 1, y = 0, z = 0\<rparr>\<rparr>"

section \<open>Properties\<close>

subsection \<open>The resolver moves a position in the ground plane only\<close>

lemma collideStep_y: "y (collideStep r p c) = y p"
  by (simp add: collideStep_def Let_def add3_def multiplyScalar3_def normalize3_def
      divideScalar3_def)

lemma foldl_collideStep_y: "y (foldl (collideStep r) p cs) = y p"
  by (induction cs arbitrary: p) (simp_all add: collideStep_y)

text \<open>
  Claim C10. For every candidate position, body radius and list of colliders,
  \<open>checkCollisions\<close> returns a position with the y coordinate of the candidate: each
  push vector is a multiple of \<open>(dx, 0, dz)\<close>, so only x and z can change.
\<close>

theorem checkCollisions_keeps_y:
  "y (checkCollisions hasMesh playerRadius cs newPosition) = y newPosition"
  by (simp add: checkCollisions_def foldl_collideStep_y)

subsection \<open>One step of the resolver\<close>

lemma planarDistance_zero_iff:
  "planarDistance p c = 0 \<longleftrightarrow> x p = x (position c) \<and> z p = z (position c)"
  by (auto simp add: planarDistance_def real_sqrt_eq_zero_cancel_iff add_nonneg_eq_0_iff)

lemma collideStep_centre: "planarDistance p c = 0 \<Longrightarrow> collideStep r p c = p"
  by (simp add: planarDistance_zero_iff collideStep_def Let_def add3_def multiplyScalar3_def
      normalize3_def divideScalar3_def)

lemma planar_triangle:
  "planarDistance (position a) b \<le> planarDistance p a + planarDistance p b"
proof -
  let ?u = "x (position a) - x p" and ?v = "z (position a) - z p"
  let ?s = "x p - x (position b)" and ?t = "z p - z (position b)"
  have "sqrt ((?u + ?s)\<^sup>2 + (?v + ?t)\<^sup>2) \<le> sqrt (?u\<^sup>2 + ?v\<^sup>2) + sqrt (?s\<^sup>2 + ?t\<^sup>2)"
    by (rule real_sqrt_sum_squares_triangle_ineq)
  moreover have "?u\<^sup>2 = (x p - x (position a))\<^sup>2" "?v\<^sup>2 = (z p - z (position a))\<^sup>2"
    by (simp_all add: power2_commute)
  ultimately show ?thesis
    by (simp add: planarDistance_def power2_eq_square)
qed

subsection \<open>Scenes on the x axis\<close>

lemma planarDistance_onAxis: "planarDistance (pointOnAxis a) (onAxis b r) = \<bar>a - b\<bar>"
  by (simp add: planarDistance_def pointOnAxis_def onAxis_def)

lemma planarDistance_axis_centre:
  "planarDistance (position (onAxis a r)) (onAxis b r') = \<bar>a - b\<bar>"
  by (simp add: planarDistance_def onAxis_def)

lemma collideStep_onAxis:
  "collideStep r (pointOnAxis a) (onAxis b rb) =
     (if \<bar>a - b\<bar> < r + rb then
        pointOnAxis (a + (a - b) * (1 / (if a = b then 1 else \<bar>a - b\<bar>)) * (r + rb - \<bar>a - b\<bar>))
      else pointOnAxis a)"
  by (simp add: collideStep_def Let_def pointOnAxis_def onAxis_def add3_def multiplyScalar3_def
      normalize3_def divideScalar3_def length3_def)

subsection \<open>Scenario A\<close>

text \<open>
  Claim C6. One obstacle at planar position (0, 0) with radius 1, body radius 0.4 and
  candidate position (0.5, 0, 0): the corrected position has x at least 1.4 and z = 0.
\<close>

theorem scenario_A:
  "7 / 5 \<le> x (checkCollisions True (2 / 5) [onAxis 0 1] (pointOnAxis (1 / 2)))
   \<and> z (checkCollisions True (2 / 5) [onAxis 0 1] (pointOnAxis (1 / 2))) = 0"
proof -
  have "checkCollisions True (2 / 5) [onAxis 0 1] (pointOnAxis (1 / 2)) = pointOnAxis (7 / 5)"
    by (simp add: checkCollisions_def collideStep_onAxis)
  then show ?thesis by (simp add: pointOnAxis_def)
qed

subsection \<open>Rounding errors\<close>

lemma rnd_err: "ieee rnd u eta Omega \<Longrightarrow> \<bar>t\<bar> \<le> Omega \<Longrightarrow> \<bar>rnd t - t\<bar> \<le> u * \<bar>t\<bar> + eta"
  by (simp add: ieee_def)

lemma rnd_zero: "ieee rnd u eta Omega \<Longrightarrow> rnd 0 = 0"
  by (simp add: ieee_def)

lemma rnd_abs:
  assumes "ieee rnd u eta Omega" and "\<bar>t\<bar> \<le> Y" and "Y \<le> Omega" and "0 \<le> u"
  shows "\<bar>rnd t - t\<bar> \<le> u * Y + eta"
proof -
  have "\<bar>rnd t - t\<bar> \<le> u * \<bar>t\<bar> + eta"
    using assms(1) by (rule rnd_err) (use assms(2,3) in linarith)
  moreover have "u * \<bar>t\<bar> \<le> u * Y" using assms(2,4) by (rule mult_left_mono)
  ultimately show ?thesis by linarith
qed

lemma small_mult:
  fixes u X :: real
  assumes "0 \<le> X" and "100 * u \<le> 1"
  shows "u * X \<le> X / 100"
proof -
  have "u \<le> 1 / 100" using assms(2) by simp
  then have "u * X \<le> (1 / 100) * X" using assms(1) by (rule mult_right_mono)
  then show ?thesis by simp
qed

lemma mult_le_atom:
  fixes u p q k :: real
  assumes "0 \<le> u" and "p \<le> k * q"
  shows "u * p \<le> k * (u * q)"
proof -
  have "u * p \<le> u * (k * q)" using assms(2,1) by (rule mult_left_mono)
  then show ?thesis by (simp add: mult.left_commute)
qed

lemma square_mono:
  fixes p q :: real
  shows "0 \<le> p \<Longrightarrow> p \<le> q \<Longrightarrow> p * p \<le> q * q"
  by (rule mult_mono) simp_all

lemma abs_mult_le:
  fixes p q P Q :: real
  assumes "\<bar>p\<bar> \<le> P" and "\<bar>q\<bar> \<le> Q"
  shows "\<bar>p * q\<bar> \<le> P * Q"
proof -
  have "\<bar>p\<bar> * \<bar>q\<bar> \<le> P * Q" using assms by (intro mult_mono) simp_all
  then show ?thesis by (simp add: abs_mult)
qed

lemma le_square_plus_one: "(g::real) \<le> g * g + 1"
proof -
  have "0 \<le> (g - 1 / 2) * (g - 1 / 2)" by simp
  then show ?thesis by (simp add: algebra_simps)
qed

subsection \<open>Lengths of planar vectors\<close>

lemma norm2_nonneg: "0 \<le> norm2 a b"
  by (simp add: norm2_def)

lemma norm2_square: "norm2 a b * norm2 a b = a * a + b * b"
  by (simp add: norm2_def)

lemma norm2_ge1: "\<bar>a\<bar> \<le> norm2 a b"
  using real_sqrt_ge_abs1 [of a b] by (simp add: norm2_def power2_eq_square)

lemma norm2_ge2: "\<bar>b\<bar> \<le> norm2 a b"
  using real_sqrt_ge_abs2 [where x = a and y = b] by (simp add: norm2_def power2_eq_square)

lemma norm2_le_sum: "norm2 a b \<le> \<bar>a\<bar> + \<bar>b\<bar>"
  using sqrt_sum_squares_le_sum_abs [of a b] by (simp add: norm2_def power2_eq_square)

lemma norm2_triangle: "norm2 (a + c) (b + d) \<le> norm2 a b + norm2 c d"
  using real_sqrt_sum_squares_triangle_ineq [of a c b d] by (simp add: norm2_def power2_eq_square)

lemma norm2_minus: "norm2 (- a) (- b) = norm2 a b"
  by (simp add: norm2_def)

lemma norm2_diff: "\<bar>norm2 a b - norm2 c d\<bar> \<le> norm2 (a - c) (b - d)"
proof -
  have "norm2 a b \<le> norm2 (a - c) (b - d) + norm2 c d"
    using norm2_triangle [of "a - c" c "b - d" d] by simp
  moreover have "norm2 c d \<le> norm2 (c - a) (d - b) + norm2 a b"
    using norm2_triangle [of "c - a" a "d - b" b] by simp
  moreover have "norm2 (c - a) (d - b) = norm2 (a - c) (b - d)"
    using norm2_minus [of "a - c" "b - d"] by simp
  ultimately show ?thesis by linarith
qed

lemma norm2_scale: "norm2 (a * k) (b * k) = norm2 a b * \<bar>k\<bar>"
proof -
  have "(a * k) * (a * k) + (b * k) * (b * k) = (a * a + b * b) * (k * k)"
    by (simp add: algebra_simps)
  then have "norm2 (a * k) (b * k) = sqrt ((a * a + b * b) * (k * k))"
    by (simp only: norm2_def)
  also have "\<dots> = sqrt (a * a + b * b) * sqrt (k * k)" by (rule real_sqrt_mult)
  finally show ?thesis by (simp add: norm2_def)
qed

lemma norm2_unit:
  assumes "0 < norm2 a b"
  shows "norm2 (a / norm2 a b * k) (b / norm2 a b * k) = \<bar>k\<bar>"
proof -
  define g where "g = norm2 a b"
  have g: "0 < g" using assms by (simp add: g_def)
  have "norm2 (a * (k / g)) (b * (k / g)) = g * \<bar>k / g\<bar>"
    unfolding g_def by (rule norm2_scale)
  also have "\<dots> = \<bar>k\<bar>" using g by (simp add: abs_divide)
  finally show ?thesis by (simp add: g_def)
qed

lemma norm2_stretch:
  assumes "0 < norm2 a b"
  shows "norm2 (a + a / norm2 a b * k) (b + b / norm2 a b * k) = \<bar>norm2 a b + k\<bar>"
proof -
  define g where "g = norm2 a b"
  have g: "0 < g" using assms by (simp add: g_def)
  have "norm2 (a * (1 + k / g)) (b * (1 + k / g)) = g * \<bar>1 + k / g\<bar>"
    unfolding g_def by (rule norm2_scale)
  also have "\<dots> = \<bar>g * (1 + k / g)\<bar>" using g by (simp add: abs_mult)
  also have "g * (1 + k / g) = g + k" using g by (simp add: algebra_simps)
  finally show ?thesis by (simp add: g_def algebra_simps)
qed

lemma planarDistance_norm2:
  "planarDistance p c = norm2 (x p - x (position c)) (z p - z (position c))"
  by (simp add: planarDistance_def norm2_def)

lemma sqrt_rel:
  fixes S g k :: real
  assumes g: "0 \<le> g" and k: "0 \<le> k" "k \<le> 1" and S: "\<bar>S - g * g\<bar> \<le> k * (g * g)"
  shows "\<bar>sqrt S - g\<bar> \<le> k * g"
proof -
  have lo: "g * g - k * (g * g) \<le> S" and hi: "S \<le> g * g + k * (g * g)"
    using S by linarith+
  have kg: "0 \<le> k * g" using g k by simp
  have kgg: "0 \<le> k * (g * g)" using g k by simp
  have S0: "0 \<le> S"
  proof -
    have "k * (g * g) \<le> 1 * (g * g)" using k g by (intro mult_right_mono) simp_all
    then show ?thesis using lo by simp
  qed
  have "(g - k * g)\<^sup>2 = g * g - k * (g * g) - (k * (g * g) - k * k * (g * g))"
    by (simp add: power2_eq_square algebra_simps)
  moreover have "k * k * (g * g) \<le> k * (g * g)"
  proof -
    have "k * (k * (g * g)) \<le> 1 * (k * (g * g))" using k(2) kgg by (rule mult_right_mono)
    then show ?thesis by (simp add: mult.assoc)
  qed
  ultimately have "(g - k * g)\<^sup>2 \<le> S" using lo by linarith
  then have l: "g - k * g \<le> sqrt S" by (rule real_le_rsqrt)
  have "(g + k * g)\<^sup>2 = g * g + k * (g * g) + (k * (g * g) + k * k * (g * g))"
    by (simp add: power2_eq_square algebra_simps)
  moreover have "0 \<le> k * k * (g * g)" using g by simp
  ultimately have "S \<le> (g + k * g)\<^sup>2" using hi kgg by linarith
  moreover have "0 \<le> g + k * g" using g kg by simp
  ultimately have h: "sqrt S \<le> g + k * g" by (intro real_le_lsqrt)
  from l h show ?thesis by linarith
qed

subsection \<open>One step of the resolver in rounded arithmetic\<close>

lemma sumsq_err:
  assumes fl: "ieee rnd u eta Omega" and u: "0 \<le> u" "100 * u \<le> 1"
    and eta: "0 \<le> eta" "eta \<le> 1"
    and Om: "2 * (a * a + b * b) + 4 \<le> Omega"
  shows "\<bar>rnd (rnd (a * a) + rnd (b * b)) - (a * a + b * b)\<bar>
           \<le> 4 * (u * (a * a + b * b)) + 5 * eta"
    and "\<bar>rnd (rnd (rnd (a * a) + rnd (0 * 0)) + rnd (b * b)) - (a * a + b * b)\<bar>
           \<le> 4 * (u * (a * a + b * b)) + 5 * eta"
proof -
  define A where "A = a * a"
  define Bq where "Bq = b * b"
  define uA where "uA = u * A"
  define uB where "uB = u * Bq"
  define ue where "ue = u * eta"
  have A0: "0 \<le> A" and B0: "0 \<le> Bq" by (simp_all add: A_def Bq_def)
  have uA0: "0 \<le> uA" and uB0: "0 \<le> uB" and ue0: "0 \<le> ue"
    using u(1) A0 B0 eta(1) by (simp_all add: uA_def uB_def ue_def)
  have sA: "uA \<le> A / 100" unfolding uA_def by (rule small_mult [OF A0 u(2)])
  have sB: "uB \<le> Bq / 100" unfolding uB_def by (rule small_mult [OF B0 u(2)])
  have se: "ue \<le> eta / 100" unfolding ue_def by (rule small_mult [OF eta(1) u(2)])
  have suA: "u * uA \<le> uA / 100" by (rule small_mult [OF uA0 u(2)])
  have suB: "u * uB \<le> uB / 100" by (rule small_mult [OF uB0 u(2)])
  have Om': "2 * A + 2 * Bq + 4 \<le> Omega" using Om by (simp add: A_def Bq_def)
  define sx where "sx = rnd A"
  define sz where "sz = rnd Bq"
  have ex: "\<bar>sx - A\<bar> \<le> uA + eta"
    unfolding sx_def uA_def using fl by (rule rnd_abs) (use A0 B0 Om' u(1) in simp_all)
  have ez: "\<bar>sz - Bq\<bar> \<le> uB + eta"
    unfolding sz_def uB_def using fl by (rule rnd_abs) (use A0 B0 Om' u(1) in simp_all)
  define Y where "Y = A + Bq + uA + uB + 2 * eta"
  have Y: "\<bar>sx + sz\<bar> \<le> Y" unfolding Y_def using ex ez A0 B0 by linarith
  have YO: "Y \<le> Omega" unfolding Y_def using sA sB eta(2) Om' A0 B0 by linarith
  have "\<bar>rnd (sx + sz) - (sx + sz)\<bar> \<le> u * Y + eta"
    using fl Y YO u(1) by (rule rnd_abs)
  moreover have "u * Y = uA + uB + u * uA + u * uB + 2 * ue"
    by (simp add: Y_def uA_def uB_def ue_def algebra_simps)
  ultimately have "\<bar>rnd (sx + sz) - (A + Bq)\<bar> \<le> 4 * uA + 4 * uB + 5 * eta"
    using ex ez suA suB se uA0 uB0 eta(1) by linarith
  moreover have "uA + uB = u * (a * a + b * b)"
    by (simp add: uA_def uB_def A_def Bq_def algebra_simps)
  ultimately show "\<bar>rnd (rnd (a * a) + rnd (b * b)) - (a * a + b * b)\<bar>
           \<le> 4 * (u * (a * a + b * b)) + 5 * eta"
    by (simp add: sx_def sz_def A_def Bq_def)
  define s1 where "s1 = rnd sx"
  define X where "X = A + uA + eta"
  have X: "\<bar>sx\<bar> \<le> X" unfolding X_def using ex A0 by linarith
  have XO: "X \<le> Omega" unfolding X_def using sA eta(2) Om' A0 B0 by linarith
  have "\<bar>s1 - sx\<bar> \<le> u * X + eta"
    unfolding s1_def using fl X XO u(1) by (rule rnd_abs)
  moreover have "u * X = uA + u * uA + ue"
    by (simp add: X_def uA_def ue_def algebra_simps)
  ultimately have e1: "\<bar>s1 - A\<bar> \<le> 2 * uA + uA / 100 + 2 * eta + eta / 100"
    using ex suA se by linarith
  define Z where "Z = A + Bq + 3 * uA + uB + 4 * eta"
  have Z: "\<bar>s1 + sz\<bar> \<le> Z" unfolding Z_def using e1 ez A0 B0 uA0 eta(1) by linarith
  have ZO: "Z \<le> Omega" unfolding Z_def using sA sB eta(2) Om' A0 B0 by linarith
  have "\<bar>rnd (s1 + sz) - (s1 + sz)\<bar> \<le> u * Z + eta"
    using fl Z ZO u(1) by (rule rnd_abs)
  moreover have "u * Z = uA + uB + 3 * (u * uA) + u * uB + 4 * ue"
    by (simp add: Z_def uA_def uB_def ue_def algebra_simps)
  ultimately have "\<bar>rnd (s1 + sz) - (A + Bq)\<bar> \<le> 4 * uA + 4 * uB + 5 * eta"
    using e1 ez suA suB se uA0 uB0 eta(1) by linarith
  moreover have "uA + uB = u * (a * a + b * b)"
    by (simp add: uA_def uB_def A_def Bq_def algebra_simps)
  moreover have "rnd (0 * 0) = 0" using rnd_zero [OF fl] by simp
  ultimately show "\<bar>rnd (rnd (rnd (a * a) + rnd (0 * 0)) + rnd (b * b)) - (a * a + b * b)\<bar>
           \<le> 4 * (u * (a * a + b * b)) + 5 * eta"
    by (simp add: s1_def sx_def sz_def A_def Bq_def)
qed

lemma root_err:
  assumes fl: "ieee rnd u eta Omega" and u: "0 \<le> u" "100 * u \<le> 1"
    and eta: "0 \<le> eta" "eta \<le> 2 * (u * (g * g))" "eta \<le> 2 * (u * g)"
    and g: "0 \<le> g" and Om: "2 * (g * g) + 4 \<le> Omega"
    and S: "\<bar>S - g * g\<bar> \<le> 4 * (u * (g * g)) + 5 * eta"
  shows "\<bar>rnd (sqrt S) - g\<bar> \<le> 18 * (u * g)"
proof -
  define ug where "ug = u * g"
  have ug0: "0 \<le> ug" using u(1) g by (simp add: ug_def)
  have sug: "u * ug \<le> ug / 100" by (rule small_mult [OF ug0 u(2)])
  have "\<bar>S - g * g\<bar> \<le> (14 * u) * (g * g)" using S eta(2) by simp
  then have r: "\<bar>sqrt S - g\<bar> \<le> (14 * u) * g"
    using g u by (intro sqrt_rel) simp_all
  then have r': "\<bar>sqrt S - g\<bar> \<le> 14 * ug" by (simp add: ug_def)
  define Y where "Y = g + 14 * ug"
  have Y: "\<bar>sqrt S\<bar> \<le> Y" unfolding Y_def using r' g by linarith
  have "ug \<le> g / 100" unfolding ug_def by (rule small_mult [OF g u(2)])
  moreover have "2 * (g * g) = g * g + g * g" by simp
  ultimately have YO: "Y \<le> Omega" unfolding Y_def using Om le_square_plus_one [of g] g by linarith
  have "\<bar>rnd (sqrt S) - sqrt S\<bar> \<le> u * Y + eta"
    using fl Y YO u(1) by (rule rnd_abs)
  moreover have "u * Y = ug + 14 * (u * ug)" by (simp add: Y_def ug_def algebra_simps)
  moreover have "eta \<le> 2 * ug" using eta(3) by (simp add: ug_def)
  ultimately have "\<bar>rnd (sqrt S) - g\<bar> \<le> 18 * ug" using r' sug ug0 by linarith
  then show ?thesis by (simp add: ug_def)
qed

lemma dist_est:
  assumes pre: "numPre rnd u eta Omega delta B"
    and dx: "\<bar>dx\<bar> \<le> 2 * B" and dz: "\<bar>dz\<bar> \<le> 2 * B"
    and far: "delta \<le> norm2 dx dz"
  shows "\<bar>rnd dx - dx\<bar> \<le> 2 * (u * norm2 dx dz)"
    and "\<bar>rnd dz - dz\<bar> \<le> 2 * (u * norm2 dx dz)"
    and "\<bar>norm2 (rnd dx) (rnd dz) - norm2 dx dz\<bar> \<le> 4 * (u * norm2 dx dz)"
    and "\<bar>distFl rnd (rnd dx) (rnd dz) - norm2 (rnd dx) (rnd dz)\<bar>
           \<le> 18 * (u * norm2 (rnd dx) (rnd dz))"
    and "\<bar>lenFl rnd (rnd dx) (rnd dz) - norm2 (rnd dx) (rnd dz)\<bar>
           \<le> 18 * (u * norm2 (rnd dx) (rnd dz))"
proof -
  have fl: "ieee rnd u eta Omega" and u: "0 < u" "100 * u \<le> 1" and eta0: "0 \<le> eta"
    and e1: "eta \<le> u * delta" and e2: "eta \<le> u * (delta * delta)" and e3: "eta * B \<le> u"
    and delta: "0 < delta" and B: "1 \<le> B" and Om: "100 * (B * B) \<le> Omega"
    using pre by (simp_all add: numPre_def)
  define d where "d = norm2 dx dz"
  define a where "a = rnd dx"
  define b where "b = rnd dz"
  define g where "g = norm2 a b"
  define ud where "ud = u * d"
  define ug where "ug = u * g"
  have d0: "0 < d" using far delta by (simp add: d_def)
  have g0: "0 \<le> g" by (simp add: g_def norm2_nonneg)
  have u0: "0 \<le> u" using u(1) by simp
  have BB: "B \<le> B * B" using B by simp
  have ud0: "0 \<le> ud" using u0 d0 by (simp add: ud_def)
  have sud: "ud \<le> d / 100" unfolding ud_def using d0 u(2) by (intro small_mult) simp_all
  have eud: "eta \<le> ud"
  proof -
    have "u * delta \<le> u * d" using far u0 unfolding d_def by (rule mult_left_mono)
    then show ?thesis using e1 by (simp add: ud_def)
  qed
  have absx: "\<bar>dx\<bar> \<le> d" and absz: "\<bar>dz\<bar> \<le> d"
    by (simp_all add: d_def norm2_ge1 norm2_ge2)
  have dB: "d \<le> 4 * B" using norm2_le_sum [of dx dz] dx dz by (simp add: d_def)
  have dOm: "d \<le> Omega" using Om BB B dB by linarith
  have "\<bar>a - dx\<bar> \<le> u * d + eta"
    unfolding a_def by (rule rnd_abs [OF fl absx dOm u0])
  then have ea: "\<bar>a - dx\<bar> \<le> 2 * ud" using eud by (simp add: ud_def)
  have "\<bar>b - dz\<bar> \<le> u * d + eta"
    unfolding b_def by (rule rnd_abs [OF fl absz dOm u0])
  then have eb: "\<bar>b - dz\<bar> \<le> 2 * ud" using eud by (simp add: ud_def)
  have "\<bar>g - d\<bar> \<le> norm2 (a - dx) (b - dz)" unfolding g_def d_def by (rule norm2_diff)
  also have "\<dots> \<le> \<bar>a - dx\<bar> + \<bar>b - dz\<bar>" by (rule norm2_le_sum)
  finally have gd: "\<bar>g - d\<bar> \<le> 4 * ud" using ea eb by linarith
  have gB: "g \<le> 5 * B" using gd sud dB d0 by linarith
  define B2 where "B2 = B * B"
  have "g * g \<le> (5 * B) * (5 * B)" using g0 gB by (rule square_mono)
  then have "g * g \<le> 25 * B2" by (simp add: B2_def algebra_simps)
  moreover have "1 \<le> B2" unfolding B2_def using BB B by linarith
  moreover have "100 * B2 \<le> Omega" unfolding B2_def using Om .
  ultimately have "g * g + g * g + 4 \<le> Omega" by linarith
  then have OmG: "2 * (g * g) + 4 \<le> Omega" by simp
  have dg: "d \<le> (21 / 20) * g" using gd sud d0 by linarith
  define g2 where "g2 = g * g"
  have g20: "0 \<le> g2" by (simp add: g2_def)
  have "d * d \<le> ((21 / 20) * g) * ((21 / 20) * g)" using d0 dg by (intro square_mono) simp_all
  moreover have "((21 / 20) * g) * ((21 / 20) * g) = (441 / 400) * g2" by (simp add: g2_def)
  ultimately have "d * d \<le> 2 * g2" using g20 by linarith
  then have dd: "d * d \<le> 2 * (g * g)" by (simp add: g2_def)
  have eg2: "eta \<le> 2 * (u * (g * g))"
  proof -
    have "delta * delta \<le> d * d" using far delta unfolding d_def by (intro square_mono) simp_all
    then have "delta * delta \<le> 2 * (g * g)" using dd by linarith
    then have "u * (delta * delta) \<le> u * (2 * (g * g))" using u0 by (rule mult_left_mono)
    then show ?thesis using e2 by simp
  qed
  have ug0: "0 \<le> ug" using u0 g0 by (simp add: ug_def)
  have udug: "ud \<le> (21 / 20) * ug" unfolding ud_def ug_def using u0 dg by (rule mult_le_atom)
  have "eta \<le> 2 * ug" using udug eud ug0 by linarith
  then have eg1: "eta \<le> 2 * (u * g)" by (simp add: ug_def)
  have eta1: "eta \<le> 1"
  proof -
    have "eta * 1 \<le> eta * B" using B eta0 by (rule mult_left_mono)
    then show ?thesis using e3 u(2) by simp
  qed
  have OmG': "2 * (a * a + b * b) + 4 \<le> Omega" using OmG by (simp add: g_def norm2_square)
  have S1: "\<bar>rnd (rnd (a * a) + rnd (b * b)) - g * g\<bar> \<le> 4 * (u * (g * g)) + 5 * eta"
    using sumsq_err(1) [OF fl u0 u(2) eta0 eta1 OmG'] by (simp add: g_def norm2_square)
  have S2: "\<bar>rnd (rnd (rnd (a * a) + rnd (0 * 0)) + rnd (b * b)) - g * g\<bar>
              \<le> 4 * (u * (g * g)) + 5 * eta"
    using sumsq_err(2) [OF fl u0 u(2) eta0 eta1 OmG'] by (simp add: g_def norm2_square)
  show "\<bar>rnd dx - dx\<bar> \<le> 2 * (u * norm2 dx dz)" using ea by (simp add: a_def ud_def d_def)
  show "\<bar>rnd dz - dz\<bar> \<le> 2 * (u * norm2 dx dz)" using eb by (simp add: b_def ud_def d_def)
  show "\<bar>norm2 (rnd dx) (rnd dz) - norm2 dx dz\<bar> \<le> 4 * (u * norm2 dx dz)"
    using gd by (simp add: g_def a_def b_def ud_def d_def)
  show "\<bar>distFl rnd (rnd dx) (rnd dz) - norm2 (rnd dx) (rnd dz)\<bar>
           \<le> 18 * (u * norm2 (rnd dx) (rnd dz))"
    using root_err [OF fl u0 u(2) eta0 eg2 eg1 g0 OmG S1]
    by (simp add: distFl_def g_def a_def b_def)
  show "\<bar>lenFl rnd (rnd dx) (rnd dz) - norm2 (rnd dx) (rnd dz)\<bar>
           \<le> 18 * (u * norm2 (rnd dx) (rnd dz))"
    using root_err [OF fl u0 u(2) eta0 eg2 eg1 g0 OmG S2]
    by (simp add: lenFl_def g_def a_def b_def)
qed

lemma numPre_basic:
  assumes "numPre rnd u eta Omega delta B"
  shows "0 \<le> u" and "eta \<le> u" and "B \<le> B * B" and "4 * B \<le> Omega" and "u \<le> u * B"
proof -
  have u: "0 < u" "100 * u \<le> 1" and eta0: "0 \<le> eta" and e3: "eta * B \<le> u"
    and B: "1 \<le> B" and Om: "100 * (B * B) \<le> Omega"
    using assms by (simp_all add: numPre_def)
  show "0 \<le> u" using u(1) by simp
  have "eta * 1 \<le> eta * B" using B eta0 by (rule mult_left_mono)
  then show "eta \<le> u" using e3 by simp
  show BB: "B \<le> B * B" using B by simp
  define B2 where "B2 = B * B"
  have "B \<le> B2" "100 * B2 \<le> Omega" using BB Om by (simp_all add: B2_def)
  then show "4 * B \<le> Omega" using B by linarith
  have "u * 1 \<le> u * B" using B u(1) by (intro mult_left_mono) simp_all
  then show "u \<le> u * B" by simp
qed

lemma numPre_mono:
  assumes "numPre rnd u eta Omega delta B'" and "1 \<le> B" and "B \<le> B'"
  shows "numPre rnd u eta Omega delta B"
proof -
  have eta0: "0 \<le> eta" and e3: "eta * B' \<le> u" and Om: "100 * (B' * B') \<le> Omega"
    using assms(1) by (simp_all add: numPre_def)
  have "eta * B \<le> eta * B'" using assms(3) eta0 by (rule mult_left_mono)
  then have a: "eta * B \<le> u" using e3 by linarith
  have "B * B \<le> B' * B'" using assms(2,3) by (intro square_mono) simp_all
  then have b: "100 * (B * B) \<le> Omega" using Om by linarith
  show ?thesis using assms(1,2) a b by (simp add: numPre_def)
qed

lemma ov_est:
  assumes pre: "numPre rnd u eta Omega delta B"
    and dm: "delta \<le> m" and mB: "m \<le> B"
    and d0: "0 < d" and g0: "0 \<le> g"
    and gd: "\<bar>g - d\<bar> \<le> 4 * (u * d)" and tg: "\<bar>t - g\<bar> \<le> 18 * (u * g)"
  shows "\<bar>rnd m - m\<bar> \<le> 2 * (u * m)"
    and "\<bar>t - d\<bar> \<le> 23 * (u * d)"
    and "t < rnd m \<Longrightarrow> d \<le> 2 * m"
    and "t < rnd m \<Longrightarrow> d - m \<le> 48 * (u * m)"
    and "t < rnd m \<Longrightarrow> \<bar>rnd (rnd m - t) - (m - d)\<bar> \<le> 51 * (u * m)"
    and "t < rnd m \<Longrightarrow> \<bar>rnd (rnd m - t)\<bar> \<le> 2 * m"
    and "t < rnd m \<Longrightarrow> \<bar>g + rnd (rnd m - t) - m\<bar> \<le> 59 * (u * m)"
    and "rnd m \<le> t \<Longrightarrow> m - 25 * (u * m) \<le> d"
proof -
  have fl: "ieee rnd u eta Omega" and u: "0 < u" "100 * u \<le> 1" and eta0: "0 \<le> eta"
    and e1: "eta \<le> u * delta" and delta: "0 < delta" and B: "1 \<le> B"
    using pre by (simp_all add: numPre_def)
  note nb = numPre_basic [OF pre]
  define ud where "ud = u * d"
  define ug where "ug = u * g"
  define um where "um = u * m"
  have m0: "0 < m" using dm delta by linarith
  have ud0: "0 \<le> ud" and ug0: "0 \<le> ug" and um0: "0 \<le> um"
    using nb(1) d0 g0 m0 by (simp_all add: ud_def ug_def um_def)
  have sud: "ud \<le> d / 100" unfolding ud_def using d0 u(2) by (intro small_mult) simp_all
  have sum: "um \<le> m / 100" unfolding um_def using m0 u(2) by (intro small_mult) simp_all
  have suum: "u * um \<le> um / 100" by (rule small_mult [OF um0 u(2)])
  have gd': "\<bar>g - d\<bar> \<le> 4 * ud" using gd by (simp add: ud_def)
  have tg': "\<bar>t - g\<bar> \<le> 18 * ug" using tg by (simp add: ug_def)
  have "g \<le> (26 / 25) * d" using gd' sud by linarith
  then have ugud: "ug \<le> (26 / 25) * ud" unfolding ug_def ud_def using nb(1) by (intro mult_le_atom)
  have td: "\<bar>t - d\<bar> \<le> 23 * ud" using tg' gd' ugud by linarith
  show "\<bar>t - d\<bar> \<le> 23 * (u * d)" using td by (simp add: ud_def)
  have eum: "eta \<le> um"
  proof -
    have "u * delta \<le> u * m" using dm nb(1) by (rule mult_left_mono)
    then show ?thesis using e1 by (simp add: um_def)
  qed
  have mO: "m \<le> Omega" using mB nb(4) B by linarith
  have "\<bar>rnd m - m\<bar> \<le> u * m + eta"
    by (rule rnd_abs [OF fl _ mO nb(1)]) (use m0 in simp)
  then have mh: "\<bar>rnd m - m\<bar> \<le> 2 * um" using eum by (simp add: um_def)
  show "\<bar>rnd m - m\<bar> \<le> 2 * (u * m)" using mh by (simp add: um_def)
  {
    assume lt: "t < rnd m"
    have d2m: "d \<le> 2 * m" using lt td mh sud sum by linarith
    show "d \<le> 2 * m" by (rule d2m)
    have udum: "ud \<le> 2 * um" unfolding ud_def um_def using nb(1) d2m by (rule mult_le_atom)
    show "d - m \<le> 48 * (u * m)" using lt td mh udum by (simp add: um_def)
    have t0: "0 \<le> t" using td sud d0 by linarith
    define Y where "Y = m + 2 * um"
    have Y: "\<bar>rnd m - t\<bar> \<le> Y" unfolding Y_def using lt t0 mh by linarith
    have YO: "Y \<le> Omega" unfolding Y_def using sum mB nb(4) B m0 by linarith
    have "\<bar>rnd (rnd m - t) - (rnd m - t)\<bar> \<le> u * Y + eta"
      by (rule rnd_abs [OF fl Y YO nb(1)])
    moreover have "u * Y = um + 2 * (u * um)" by (simp add: Y_def um_def algebra_simps)
    ultimately have ov: "\<bar>rnd (rnd m - t) - (m - d)\<bar> \<le> 51 * um"
      using suum eum mh td udum um0 by linarith
    show "\<bar>rnd (rnd m - t) - (m - d)\<bar> \<le> 51 * (u * m)" using ov by (simp add: um_def)
    show "\<bar>rnd (rnd m - t)\<bar> \<le> 2 * m" using ov d2m d0 sum by linarith
    show "\<bar>g + rnd (rnd m - t) - m\<bar> \<le> 59 * (u * m)"
      using ov gd' udum by (simp add: um_def)
  }
  {
    assume ge: "rnd m \<le> t"
    have "m - 25 * um \<le> d"
    proof (rule ccontr)
      assume "\<not> m - 25 * um \<le> d"
      then have lt: "d < m - 25 * um" by simp
      then have "d \<le> 1 * m" using um0 by linarith
      then have "ud \<le> 1 * um" unfolding ud_def um_def using nb(1) by (intro mult_le_atom)
      then show False using lt ge td mh by linarith
    qed
    then show "m - 25 * (u * m) \<le> d" by (simp add: um_def)
  }
qed

lemma coord_est:
  assumes pre: "numPre rnd u eta Omega delta B"
    and mB: "m \<le> B" and m0: "0 < m" and far: "delta \<le> d" and d2m: "d \<le> 2 * m"
    and gd: "\<bar>g - d\<bar> \<le> 4 * (u * d)" and lg: "\<bar>len - g\<bar> \<le> 18 * (u * g)"
    and w: "\<bar>w\<bar> \<le> g" and cd: "\<bar>w - dc\<bar> \<le> 2 * (u * d)"
    and ov: "\<bar>ov\<bar> \<le> 2 * m" and pc: "\<bar>pc\<bar> \<le> B"
  shows "\<bar>rnd (pc + rnd (rnd (w * rnd (1 / (if len = 0 then 1 else len))) * ov))
            - pc - (w / g) * ov\<bar> \<le> 72 * (u * B)"
    and "\<bar>(rnd (pc + rnd (rnd (w * rnd (1 / (if len = 0 then 1 else len))) * ov))
            - pc + dc) - (w + (w / g) * ov)\<bar> \<le> 76 * (u * B)"
    and "\<bar>rnd (pc + rnd (rnd (w * rnd (1 / (if len = 0 then 1 else len))) * ov))\<bar> \<le> 5 * B"
proof -
  have fl: "ieee rnd u eta Omega" and u: "0 < u" "100 * u \<le> 1" and eta0: "0 \<le> eta"
    and ed: "eta \<le> u * delta"
    and e3: "eta * B \<le> u" and delta: "0 < delta" and B: "1 \<le> B"
    and Om2: "2 / delta \<le> Omega"
    using pre by (simp_all add: numPre_def)
  note nb = numPre_basic [OF pre]
  define ud where "ud = u * d"
  define ug where "ug = u * g"
  define um where "um = u * m"
  define uB where "uB = u * B"
  have d0: "0 < d" using far delta by linarith
  have ud0: "0 \<le> ud" and um0: "0 \<le> um" and uB0: "0 \<le> uB"
    using nb(1) d0 m0 B by (simp_all add: ud_def um_def uB_def)
  have sud: "ud \<le> d / 100" unfolding ud_def using d0 u(2) by (intro small_mult) simp_all
  have sum: "um \<le> m / 100" unfolding um_def using m0 u(2) by (intro small_mult) simp_all
  have suB: "uB \<le> B / 100" unfolding uB_def using B u(2) by (intro small_mult) simp_all
  have "m \<le> 1 * B" using mB by simp
  then have umuB: "um \<le> 1 * uB" unfolding um_def uB_def using nb(1) by (intro mult_le_atom)
  have udum: "ud \<le> 2 * um" unfolding ud_def um_def using nb(1) d2m by (rule mult_le_atom)
  have uuB: "u \<le> uB" using nb(5) by (simp add: uB_def)
  have gd': "\<bar>g - d\<bar> \<le> 4 * ud" using gd by (simp add: ud_def)
  have g0: "0 < g" using gd' sud d0 by linarith
  have ug0: "0 \<le> ug" using nb(1) g0 by (simp add: ug_def)
  have sug: "ug \<le> g / 100" unfolding ug_def using g0 u(2) by (intro small_mult) simp_all
  have lg': "\<bar>len - g\<bar> \<le> 18 * ug" using lg by (simp add: ug_def)
  have len0: "0 < len" using lg' sug g0 by linarith
  have lend: "delta / 2 \<le> len" using lg' sug gd' sud far by linarith
  define il where "il = 1 / len"
  have il0: "0 < il" using len0 by (simp add: il_def)
  have "1 / len \<le> 1 / (delta / 2)" using lend delta by (intro frac_le) simp_all
  then have ilO: "il \<le> Omega" using Om2 by (simp add: il_def)
  define iv where "iv = rnd il"
  have iv_if: "rnd (1 / (if len = 0 then 1 else len)) = iv"
    using len0 by (simp add: iv_def il_def)
  have eiv: "\<bar>iv - il\<bar> \<le> u * il + eta"
    unfolding iv_def by (rule rnd_abs [OF fl _ ilO nb(1)]) (use il0 in simp)
  define rho where "rho = g * il"
  have rho0: "0 \<le> rho" using g0 il0 by (simp add: rho_def)
  have "g \<le> (5 / 4) * len" using lg' sug g0 by linarith
  then have rho54: "rho \<le> 5 / 4" using len0 by (simp add: rho_def il_def pos_divide_le_eq)
  define ur where "ur = u * rho"
  have ur54: "ur \<le> (5 / 4) * u"
  proof -
    have "u * rho \<le> u * (5 / 4)" using rho54 nb(1) by (rule mult_left_mono)
    then show ?thesis by (simp add: ur_def)
  qed
  have ur0: "0 \<le> ur" using nb(1) rho0 by (simp add: ur_def)
  have rho1: "\<bar>rho - 1\<bar> \<le> 18 * ur"
  proof -
    have "rho - 1 = (g - len) / len" using len0 by (simp add: rho_def il_def field_simps)
    then have "\<bar>rho - 1\<bar> = \<bar>len - g\<bar> / len" using len0 by (simp add: abs_minus_commute)
    also have "\<dots> \<le> (18 * ug) / len" using lg' len0 by (intro divide_right_mono) simp_all
    also have "\<dots> = 18 * ur" by (simp add: ug_def ur_def rho_def il_def)
    finally show ?thesis .
  qed
  define e where "e = w / g"
  have e1: "\<bar>e\<bar> \<le> 1" using w g0 by (simp add: e_def)
  have ce: "w * il = e * rho" using g0 by (simp add: e_def rho_def)
  define X where "X = w * iv"
  have gB: "g \<le> 3 * B" using gd' sud d2m mB m0 by linarith
  have geta: "g * eta \<le> 3 * u"
  proof -
    define eB where "eB = eta * B"
    have "g * eta \<le> (3 * B) * eta" using gB eta0 by (rule mult_right_mono)
    moreover have "(3 * B) * eta = 3 * eB" by (simp add: eB_def)
    moreover have "eB \<le> u" using e3 by (simp add: eB_def)
    ultimately show ?thesis by linarith
  qed
  have "X - e * rho = w * (iv - il)" by (simp add: X_def ce [symmetric] algebra_simps)
  then have "\<bar>X - e * rho\<bar> = \<bar>w * (iv - il)\<bar>" by simp
  also have "\<dots> \<le> g * (u * il + eta)" using w eiv by (rule abs_mult_le)
  also have "\<dots> = ur + g * eta" by (simp add: ur_def rho_def algebra_simps)
  finally have X1: "\<bar>X - e * rho\<bar> \<le> 5 * u" using ur54 geta nb(1) by linarith
  have "e * rho - e = e * (rho - 1)" by (simp add: algebra_simps)
  then have "\<bar>e * rho - e\<bar> = \<bar>e * (rho - 1)\<bar>" by simp
  also have "\<dots> \<le> 1 * (18 * ur)" using e1 rho1 by (rule abs_mult_le)
  finally have X2: "\<bar>e * rho - e\<bar> \<le> 23 * u" using ur54 by linarith
  have Xe: "\<bar>X - e\<bar> \<le> 28 * u" using X1 X2 by linarith
  have Xabs: "\<bar>X\<bar> \<le> 2" using Xe e1 u(2) by linarith
  define n where "n = rnd X"
  have "\<bar>n - X\<bar> \<le> u * 2 + eta"
    unfolding n_def by (rule rnd_abs [OF fl Xabs _ nb(1)]) (use nb(4) B in linarith)
  then have ne: "\<bar>n - e\<bar> \<le> 31 * u" using Xe nb(2) by linarith
  have nabs: "\<bar>n\<bar> \<le> 2" using ne e1 u(2) by linarith
  have nov: "\<bar>n * ov\<bar> \<le> 4 * m"
    using abs_mult_le [OF nabs ov] by simp
  define q where "q = rnd (n * ov)"
  have euB: "eta \<le> uB" using nb(2) uuB by linarith
  have "u * delta \<le> u * d" using far nb(1) by (rule mult_left_mono)
  then have eud: "eta \<le> ud" using ed by (simp add: ud_def)
  have "\<bar>q - n * ov\<bar> \<le> u * (4 * m) + eta"
    unfolding q_def by (rule rnd_abs [OF fl nov _ nb(1)]) (use nb(4) mB in linarith)
  then have q1: "\<bar>q - n * ov\<bar> \<le> 4 * um + eta" by (simp add: um_def)
  have "n * ov - e * ov = (n - e) * ov" by (simp add: algebra_simps)
  then have "\<bar>n * ov - e * ov\<bar> = \<bar>(n - e) * ov\<bar>" by simp
  also have "\<dots> \<le> (31 * u) * (2 * m)" using ne ov by (rule abs_mult_le)
  also have "\<dots> = 62 * um" by (simp add: um_def)
  finally have q2: "\<bar>n * ov - e * ov\<bar> \<le> 62 * um" .
  have qe: "\<bar>q - e * ov\<bar> \<le> 66 * um + eta" using q1 q2 by linarith
  have eov: "\<bar>e * ov\<bar> \<le> 2 * m" using abs_mult_le [OF e1 ov] by simp
  have qabs: "\<bar>q\<bar> \<le> 3 * m" using qe eov sum eud udum by linarith
  have pq: "\<bar>pc + q\<bar> \<le> 4 * B" using pc qabs mB by linarith
  define v where "v = rnd (pc + q)"
  have "\<bar>v - (pc + q)\<bar> \<le> u * (4 * B) + eta"
    unfolding v_def by (rule rnd_abs [OF fl pq nb(4) nb(1)])
  then have v1: "\<bar>v - (pc + q)\<bar> \<le> 4 * uB + eta" by (simp add: uB_def)
  have veq: "rnd (pc + rnd (rnd (w * rnd (1 / (if len = 0 then 1 else len))) * ov)) = v"
    by (simp add: v_def q_def n_def X_def iv_if)
  have r1: "\<bar>v - pc - e * ov\<bar> \<le> 72 * uB" using v1 qe umuB euB by linarith
  have cd': "\<bar>w - dc\<bar> \<le> 2 * ud" using cd by (simp add: ud_def)
  have r2: "\<bar>(v - pc + dc) - (w + e * ov)\<bar> \<le> 76 * uB" using r1 cd' udum umuB by linarith
  have r3: "\<bar>v\<bar> \<le> 5 * B" using v1 pq suB euB B by linarith
  show "\<bar>rnd (pc + rnd (rnd (w * rnd (1 / (if len = 0 then 1 else len))) * ov))
            - pc - (w / g) * ov\<bar> \<le> 72 * (u * B)"
    using r1 unfolding veq by (simp add: e_def uB_def)
  show "\<bar>(rnd (pc + rnd (rnd (w * rnd (1 / (if len = 0 then 1 else len))) * ov))
            - pc + dc) - (w + (w / g) * ov)\<bar> \<le> 76 * (u * B)"
    using r2 unfolding veq by (simp add: e_def uB_def)
  show "\<bar>rnd (pc + rnd (rnd (w * rnd (1 / (if len = 0 then 1 else len))) * ov))\<bar> \<le> 5 * B"
    using r3 unfolding veq .
qed

lemma collideStepFl_exact: "collideStepFl (\<lambda>t. t) r p c = collideStep r p c"
  by (simp add: collideStepFl_def collideStep_def Let_def add3Fl_def add3_def
      multiplyScalar3Fl_def multiplyScalar3_def normalize3Fl_def normalize3_def
      divideScalar3Fl_def divideScalar3_def length3Fl_def length3_def)

lemma checkCollisionsFl_exact:
  "checkCollisionsFl (\<lambda>t. t) hasMesh r cs p = checkCollisions hasMesh r cs p"
proof -
  have "collideStepFl (\<lambda>t. t) r = collideStep r"
    by (intro ext) (simp add: collideStepFl_exact)
  then show ?thesis by (simp add: checkCollisionsFl_def checkCollisions_def)
qed

lemma collideStepFl_keep:
  "\<not> distFl rnd (rnd (x p - x (position c))) (rnd (z p - z (position c))) < rnd (R + radius c)
     \<Longrightarrow> collideStepFl rnd R p c = p"
  by (simp add: collideStepFl_def Let_def distFl_def)

lemma collideStepFl_push:
  assumes "distFl rnd (rnd (x p - x (position c))) (rnd (z p - z (position c))) < rnd (R + radius c)"
    and "rnd 0 = 0"
  shows "x (collideStepFl rnd R p c) =
           rnd (x p + rnd (rnd (rnd (x p - x (position c))
              * rnd (1 / (if lenFl rnd (rnd (x p - x (position c))) (rnd (z p - z (position c))) = 0
                          then 1
                          else lenFl rnd (rnd (x p - x (position c))) (rnd (z p - z (position c))))))
              * rnd (rnd (R + radius c)
                  - distFl rnd (rnd (x p - x (position c))) (rnd (z p - z (position c))))))"
    and "z (collideStepFl rnd R p c) =
           rnd (z p + rnd (rnd (rnd (z p - z (position c))
              * rnd (1 / (if lenFl rnd (rnd (x p - x (position c))) (rnd (z p - z (position c))) = 0
                          then 1
                          else lenFl rnd (rnd (x p - x (position c))) (rnd (z p - z (position c))))))
              * rnd (rnd (R + radius c)
                  - distFl rnd (rnd (x p - x (position c))) (rnd (z p - z (position c))))))"
    and "y (collideStepFl rnd R p c) = rnd (y p)"
  using assms
  by (simp_all add: collideStepFl_def Let_def distFl_def lenFl_def add3Fl_def
      multiplyScalar3Fl_def normalize3Fl_def divideScalar3Fl_def length3Fl_def)

lemma stepFl_est:
  assumes pre: "stepPre rnd u eta Omega delta B R p c"
  shows "collideStepFl rnd R p c = p \<and>
           R + radius c - 25 * (u * (R + radius c)) \<le> planarDistance p c
       \<or> \<bar>planarDistance (collideStepFl rnd R p c) c - (R + radius c)\<bar> \<le> 211 * (u * B)
         \<and> planarMove p (collideStepFl rnd R p c)
              \<le> max (R + radius c - planarDistance p c) (48 * (u * B)) + 195 * (u * B)
         \<and> \<bar>x (collideStepFl rnd R p c)\<bar> \<le> 5 * B
         \<and> \<bar>z (collideStepFl rnd R p c)\<bar> \<le> 5 * B
         \<and> y (collideStepFl rnd R p c) = rnd (y p)"
    and "R + radius c + 50 * (u * (R + radius c)) \<le> planarDistance p c
           \<Longrightarrow> collideStepFl rnd R p c = p"
proof -
  have np: "numPre rnd u eta Omega delta B"
    and px: "\<bar>x p\<bar> \<le> B" and pz: "\<bar>z p\<bar> \<le> B"
    and cx: "\<bar>x (position c)\<bar> \<le> B" and cz: "\<bar>z (position c)\<bar> \<le> B"
    and dm: "delta \<le> R + radius c" and mB: "R + radius c \<le> B"
    and far: "delta \<le> planarDistance p c"
    using pre by (simp_all add: stepPre_def)
  have fl: "ieee rnd u eta Omega" and u: "0 < u" "100 * u \<le> 1" and delta: "0 < delta"
    and B: "1 \<le> B"
    using np by (simp_all add: numPre_def)
  note nb = numPre_basic [OF np]
  define dx where "dx = x p - x (position c)"
  define dz where "dz = z p - z (position c)"
  define d where "d = norm2 dx dz"
  define a where "a = rnd dx"
  define b where "b = rnd dz"
  define g where "g = norm2 a b"
  define t where "t = distFl rnd a b"
  define len where "len = lenFl rnd a b"
  define m where "m = R + radius c"
  define ov where "ov = rnd (rnd m - t)"
  define q where "q = collideStepFl rnd R p c"
  define uB where "uB = u * B"
  define um where "um = u * m"
  define ud where "ud = u * d"
  have dd: "planarDistance p c = d" by (simp add: planarDistance_norm2 d_def dx_def dz_def)
  have far': "delta \<le> norm2 dx dz" using far dd by (simp add: d_def)
  have d0: "0 < d" using far dd delta by linarith
  have m0: "0 < m" using dm delta by (simp add: m_def)
  have adx: "\<bar>dx\<bar> \<le> 2 * B" and adz: "\<bar>dz\<bar> \<le> 2 * B"
    using px pz cx cz by (simp_all add: dx_def dz_def)
  note de = dist_est [OF np adx adz far']
  have ea: "\<bar>a - dx\<bar> \<le> 2 * (u * d)" and eb: "\<bar>b - dz\<bar> \<le> 2 * (u * d)"
    and gd: "\<bar>g - d\<bar> \<le> 4 * (u * d)" and tg: "\<bar>t - g\<bar> \<le> 18 * (u * g)"
    and lg: "\<bar>len - g\<bar> \<le> 18 * (u * g)"
    using de by (simp_all add: a_def b_def g_def d_def t_def len_def)
  have g0: "0 \<le> g" by (simp add: g_def norm2_nonneg)
  have dm': "delta \<le> m" and mB': "m \<le> B" using dm mB by (simp_all add: m_def)
  note oe = ov_est [OF np dm' mB' d0 g0 gd tg]
  have um0: "0 < um" using u(1) m0 by (simp add: um_def)
  have "m \<le> 1 * B" using mB' by simp
  then have umuB: "um \<le> 1 * uB" unfolding um_def uB_def using nb(1) by (intro mult_le_atom)
  have t_eq: "distFl rnd (rnd (x p - x (position c))) (rnd (z p - z (position c))) = t"
    by (simp add: t_def a_def b_def dx_def dz_def)
  {
    assume clear: "R + radius c + 50 * (u * (R + radius c)) \<le> planarDistance p c"
    have "\<not> t < rnd m"
    proof
      assume "t < rnd m"
      then have "d - m \<le> 48 * (u * m)" by (rule oe(4))
      then show False using clear um0 by (simp add: dd m_def um_def)
    qed
    then show "collideStepFl rnd R p c = p"
      using collideStepFl_keep [of rnd p c R] by (simp add: t_eq m_def)
  }
  show "collideStepFl rnd R p c = p \<and>
           R + radius c - 25 * (u * (R + radius c)) \<le> planarDistance p c
       \<or> \<bar>planarDistance (collideStepFl rnd R p c) c - (R + radius c)\<bar> \<le> 211 * (u * B)
         \<and> planarMove p (collideStepFl rnd R p c)
              \<le> max (R + radius c - planarDistance p c) (48 * (u * B)) + 195 * (u * B)
         \<and> \<bar>x (collideStepFl rnd R p c)\<bar> \<le> 5 * B
         \<and> \<bar>z (collideStepFl rnd R p c)\<bar> \<le> 5 * B
         \<and> y (collideStepFl rnd R p c) = rnd (y p)"
  proof (cases "t < rnd m")
    case False
    then have "collideStepFl rnd R p c = p"
      using collideStepFl_keep [of rnd p c R] by (simp add: t_eq m_def)
    moreover have "m - 25 * (u * m) \<le> d" using False oe(8) by simp
    ultimately show ?thesis by (simp add: dd m_def)
  next
    case True
    have lt: "distFl rnd (rnd (x p - x (position c))) (rnd (z p - z (position c)))
                < rnd (R + radius c)"
      using True by (simp add: t_eq m_def)
    note cp = collideStepFl_push [OF lt rnd_zero [OF fl]]
    have d2m: "d \<le> 2 * m" and dmm: "d - m \<le> 48 * um"
      and ovm: "\<bar>ov - (m - d)\<bar> \<le> 51 * um" and ovabs: "\<bar>ov\<bar> \<le> 2 * m"
      and gov: "\<bar>g + ov - m\<bar> \<le> 59 * um"
      using oe(3-7) [OF True] by (simp_all add: ov_def um_def)
    have far'': "delta \<le> d" using far dd by simp
    have ag: "\<bar>a\<bar> \<le> g" and bg: "\<bar>b\<bar> \<le> g" by (simp_all add: g_def norm2_ge1 norm2_ge2)
    note cex = coord_est [OF np mB' m0 far'' d2m gd lg ag ea ovabs px]
    note cez = coord_est [OF np mB' m0 far'' d2m gd lg bg eb ovabs pz]
    have xq: "x q = rnd (x p + rnd (rnd (a * rnd (1 / (if len = 0 then 1 else len))) * ov))"
      unfolding q_def cp(1) by (simp add: a_def b_def dx_def dz_def len_def ov_def t_def m_def)
    have zq: "z q = rnd (z p + rnd (rnd (b * rnd (1 / (if len = 0 then 1 else len))) * ov))"
      unfolding q_def cp(2) by (simp add: a_def b_def dx_def dz_def len_def ov_def t_def m_def)
    have yq: "y q = rnd (y p)" unfolding q_def by (rule cp(3))
    have x1: "\<bar>x q - x p - a / g * ov\<bar> \<le> 72 * uB"
      and x2: "\<bar>(x q - x p + dx) - (a + a / g * ov)\<bar> \<le> 76 * uB"
      and x3: "\<bar>x q\<bar> \<le> 5 * B"
      using cex unfolding xq [symmetric] by (simp_all add: uB_def)
    have z1: "\<bar>z q - z p - b / g * ov\<bar> \<le> 72 * uB"
      and z2: "\<bar>(z q - z p + dz) - (b + b / g * ov)\<bar> \<le> 76 * uB"
      and z3: "\<bar>z q\<bar> \<le> 5 * B"
      using cez unfolding zq [symmetric] by (simp_all add: uB_def)
    have sud: "u * d \<le> d / 100" using d0 u(2) by (intro small_mult) simp_all
    have gpos: "0 < g" using gd sud d0 by linarith
    have gpos': "0 < norm2 a b" using gpos by (simp add: g_def)
    have sum: "um \<le> m / 100" unfolding um_def using m0 u(2) by (intro small_mult) simp_all
    have W: "norm2 (a + a / g * ov) (b + b / g * ov) = g + ov"
    proof -
      have "norm2 (a + a / g * ov) (b + b / g * ov) = \<bar>g + ov\<bar>"
        unfolding g_def by (rule norm2_stretch [OF gpos'])
      moreover have "0 \<le> g + ov" using gov sum m0 by linarith
      ultimately show ?thesis by simp
    qed
    have dq: "planarDistance q c = norm2 (x q - x p + dx) (z q - z p + dz)"
      by (simp add: planarDistance_norm2 dx_def dz_def)
    have "\<bar>planarDistance q c - (g + ov)\<bar>
            \<le> norm2 ((x q - x p + dx) - (a + a / g * ov)) ((z q - z p + dz) - (b + b / g * ov))"
      unfolding dq W [symmetric] by (rule norm2_diff)
    also have "\<dots> \<le> \<bar>(x q - x p + dx) - (a + a / g * ov)\<bar>
                     + \<bar>(z q - z p + dz) - (b + b / g * ov)\<bar>"
      by (rule norm2_le_sum)
    finally have "\<bar>planarDistance q c - (g + ov)\<bar> \<le> 152 * uB" using x2 z2 by linarith
    then have r1: "\<bar>planarDistance q c - m\<bar> \<le> 211 * uB" using gov umuB by linarith
    have U: "norm2 (a / g * ov) (b / g * ov) = \<bar>ov\<bar>"
      unfolding g_def by (rule norm2_unit [OF gpos'])
    have "planarMove p q
            = norm2 ((x q - x p - a / g * ov) + a / g * ov) ((z q - z p - b / g * ov) + b / g * ov)"
      by (simp add: planarMove_def)
    also have "\<dots> \<le> norm2 (x q - x p - a / g * ov) (z q - z p - b / g * ov)
                     + norm2 (a / g * ov) (b / g * ov)"
      by (rule norm2_triangle)
    also have "\<dots> \<le> (\<bar>x q - x p - a / g * ov\<bar> + \<bar>z q - z p - b / g * ov\<bar>) + \<bar>ov\<bar>"
      unfolding U using norm2_le_sum [of "x q - x p - a / g * ov" "z q - z p - b / g * ov"]
      by linarith
    finally have "planarMove p q \<le> 144 * uB + \<bar>ov\<bar>" using x1 z1 by linarith
    then have r2: "planarMove p q \<le> max (m - d) (48 * uB) + 195 * uB"
      using ovm dmm umuB by linarith
    show ?thesis
      using r1 r2 x3 z3 yq by (simp add: q_def m_def dd uB_def)
  qed
qed

subsection \<open>The loop of the resolver in rounded arithmetic\<close>

lemma separatedBy_mono:
  "separatedBy gap' r cs \<Longrightarrow> gap \<le> gap' \<Longrightarrow> separatedBy gap r cs"
  by (induction cs) (auto simp add: apartBy_def)

lemma foldl_fixed: "\<forall>c \<in> set cs. f q c = q \<Longrightarrow> foldl f q cs = q"
  by (induction cs) simp_all

lemma band_clear:
  assumes np: "0 \<le> u" and B: "R + radius c \<le> B"
    and band: "\<bar>planarDistance q b - (R + radius b)\<bar> \<le> 211 * (u * B)"
    and ap: "radius b + radius c + 2 * R + gap \<le> planarDistance (position b) c
             \<or> radius c + radius b + 2 * R + gap \<le> planarDistance (position c) b"
    and gap: "261 * (u * B) \<le> gap"
  shows "R + radius c + 50 * (u * (R + radius c)) \<le> planarDistance q c"
proof -
  have "R + radius c \<le> 1 * B" using B by simp
  then have "u * (R + radius c) \<le> 1 * (u * B)" using np by (intro mult_le_atom)
  moreover have "radius b + radius c + 2 * R + gap \<le> planarDistance q b + planarDistance q c"
    using ap planar_triangle [of b c q] planar_triangle [of c b q] by linarith
  ultimately show ?thesis using band gap by linarith
qed

lemma foldFl_cases:
  assumes sp: "scenePre rnd u eta Omega delta B R p cs"
    and sep: "separatedBy gap R cs" and gap: "261 * (u * B) \<le> gap"
  shows "(foldl (collideStepFl rnd R) p cs = p
          \<and> (\<forall>c \<in> set cs. R + radius c - 25 * (u * (R + radius c)) \<le> planarDistance p c))
       \<or> (\<exists>b \<in> set cs.
            \<bar>planarDistance (foldl (collideStepFl rnd R) p cs) b - (R + radius b)\<bar> \<le> 211 * (u * B)
          \<and> (\<forall>c \<in> set cs. c \<noteq> b \<longrightarrow>
                R + radius c + 50 * (u * (R + radius c))
                  \<le> planarDistance (foldl (collideStepFl rnd R) p cs) c)
          \<and> planarMove p (foldl (collideStepFl rnd R) p cs)
               \<le> max (R + radius b - planarDistance p b) (48 * (u * B)) + 195 * (u * B)
          \<and> y (foldl (collideStepFl rnd R) p cs) = rnd (y p)
          \<and> \<bar>x (foldl (collideStepFl rnd R) p cs)\<bar> \<le> 5 * B
          \<and> \<bar>z (foldl (collideStepFl rnd R) p cs)\<bar> \<le> 5 * B)"
  using sp sep
proof (induction cs)
  case Nil
  then show ?case by simp
next
  case (Cons c cs)
  have np5: "numPre rnd u eta Omega delta (5 * B)" and B: "1 \<le> B"
    and px: "\<bar>x p\<bar> \<le> B" and pz: "\<bar>z p\<bar> \<le> B"
    and sc: "\<forall>c' \<in> set (c # cs). \<bar>x (position c')\<bar> \<le> B \<and> \<bar>z (position c')\<bar> \<le> B
            \<and> delta \<le> R + radius c' \<and> R + radius c' \<le> B \<and> delta \<le> planarDistance p c'"
    using Cons.prems(1) by (simp_all add: scenePre_def)
  have "B \<le> 5 * B" using B by simp
  then have np: "numPre rnd u eta Omega delta B" by (rule numPre_mono [OF np5 B])
  have u0: "0 \<le> u" using np by (simp add: numPre_def)
  have spc: "stepPre rnd u eta Omega delta B R p c"
    using np px pz sc by (simp add: stepPre_def)
  have sp': "scenePre rnd u eta Omega delta B R p cs"
    using Cons.prems(1) by (simp add: scenePre_def)
  have ap: "\<forall>b \<in> set cs. apartBy gap R c b" and sep': "separatedBy gap R cs"
    using Cons.prems(2) by simp_all
  note ih = Cons.IH [OF sp' sep']
  let ?q = "collideStepFl rnd R p c"
  from stepFl_est(1) [OF spc]
  consider (keep) "?q = p" "R + radius c - 25 * (u * (R + radius c)) \<le> planarDistance p c"
    | (push) "\<bar>planarDistance ?q c - (R + radius c)\<bar> \<le> 211 * (u * B)"
        "planarMove p ?q \<le> max (R + radius c - planarDistance p c) (48 * (u * B)) + 195 * (u * B)"
        "\<bar>x ?q\<bar> \<le> 5 * B" "\<bar>z ?q\<bar> \<le> 5 * B" "y ?q = rnd (y p)"
    by blast
  then show ?case
  proof cases
    case keep
    have f: "foldl (collideStepFl rnd R) p (c # cs) = foldl (collideStepFl rnd R) p cs"
      using keep(1) by simp
    from ih show ?thesis
    proof
      assume "foldl (collideStepFl rnd R) p cs = p
          \<and> (\<forall>c \<in> set cs. R + radius c - 25 * (u * (R + radius c)) \<le> planarDistance p c)"
      then show ?thesis using keep(2) f by simp
    next
      assume "\<exists>b \<in> set cs.
            \<bar>planarDistance (foldl (collideStepFl rnd R) p cs) b - (R + radius b)\<bar> \<le> 211 * (u * B)
          \<and> (\<forall>c \<in> set cs. c \<noteq> b \<longrightarrow>
                R + radius c + 50 * (u * (R + radius c))
                  \<le> planarDistance (foldl (collideStepFl rnd R) p cs) c)
          \<and> planarMove p (foldl (collideStepFl rnd R) p cs)
               \<le> max (R + radius b - planarDistance p b) (48 * (u * B)) + 195 * (u * B)
          \<and> y (foldl (collideStepFl rnd R) p cs) = rnd (y p)
          \<and> \<bar>x (foldl (collideStepFl rnd R) p cs)\<bar> \<le> 5 * B
          \<and> \<bar>z (foldl (collideStepFl rnd R) p cs)\<bar> \<le> 5 * B"
      then obtain b where b: "b \<in> set cs"
        and band: "\<bar>planarDistance (foldl (collideStepFl rnd R) p cs) b - (R + radius b)\<bar>
                     \<le> 211 * (u * B)"
        and rest: "\<forall>c \<in> set cs. c \<noteq> b \<longrightarrow>
                R + radius c + 50 * (u * (R + radius c))
                  \<le> planarDistance (foldl (collideStepFl rnd R) p cs) c"
        and more: "planarMove p (foldl (collideStepFl rnd R) p cs)
               \<le> max (R + radius b - planarDistance p b) (48 * (u * B)) + 195 * (u * B)"
          "y (foldl (collideStepFl rnd R) p cs) = rnd (y p)"
          "\<bar>x (foldl (collideStepFl rnd R) p cs)\<bar> \<le> 5 * B"
          "\<bar>z (foldl (collideStepFl rnd R) p cs)\<bar> \<le> 5 * B"
        by blast
      have "apartBy gap R c b" using ap b by simp
      then have "radius b + radius c + 2 * R + gap \<le> planarDistance (position b) c
             \<or> radius c + radius b + 2 * R + gap \<le> planarDistance (position c) b"
        by (simp add: apartBy_def)
      moreover have "R + radius c \<le> B" using sc by simp
      ultimately have "R + radius c + 50 * (u * (R + radius c))
                  \<le> planarDistance (foldl (collideStepFl rnd R) p cs) c"
        using band_clear [OF u0 _ band _ gap] by blast
      then have "\<forall>c' \<in> set (c # cs). c' \<noteq> b \<longrightarrow>
                R + radius c' + 50 * (u * (R + radius c'))
                  \<le> planarDistance (foldl (collideStepFl rnd R) p cs) c'"
        using rest by simp
      then show ?thesis using b band more f by auto
    qed
  next
    case push
    have clear: "R + radius c' + 50 * (u * (R + radius c')) \<le> planarDistance ?q c'"
      if c': "c' \<in> set cs" for c'
    proof -
      have "apartBy gap R c c'" using ap c' by simp
      then have "radius c + radius c' + 2 * R + gap \<le> planarDistance (position c) c'
             \<or> radius c' + radius c + 2 * R + gap \<le> planarDistance (position c') c"
        by (simp add: apartBy_def)
      moreover have "R + radius c' \<le> B" using sc c' by simp
      ultimately show ?thesis using band_clear [OF u0 _ push(1) _ gap] by blast
    qed
    have stay: "collideStepFl rnd R ?q c' = ?q" if c': "c' \<in> set cs" for c'
    proof -
      have m: "delta \<le> R + radius c'" "R + radius c' \<le> B"
        "\<bar>x (position c')\<bar> \<le> B" "\<bar>z (position c')\<bar> \<le> B"
        using sc c' by simp_all
      have "0 \<le> u * (R + radius c')" using u0 m(1) np by (simp add: numPre_def)
      then have "delta \<le> planarDistance ?q c'" using clear [OF c'] m(1) by linarith
      then have "stepPre rnd u eta Omega delta (5 * B) R ?q c'"
        using np5 push(3,4) m B by (simp add: stepPre_def)
      then show ?thesis using clear [OF c'] by (rule stepFl_est(2))
    qed
    have f: "foldl (collideStepFl rnd R) p (c # cs) = ?q"
      using foldl_fixed [of cs "collideStepFl rnd R" ?q] stay by simp
    have "\<forall>c' \<in> set (c # cs). c' \<noteq> c \<longrightarrow>
                R + radius c' + 50 * (u * (R + radius c')) \<le> planarDistance ?q c'"
      using clear by simp
    then show ?thesis using push unfolding f by auto
  qed
qed

lemma moved_planar: "y q = y p \<Longrightarrow> moved p q = planarMove p q"
  by (simp add: moved_def planarMove_def norm2_def)

lemma moved_self: "moved p p = 0"
  by (simp add: moved_def)

subsection \<open>A scene and a rounding function within the sizes\<close>

lemma inflate_err:
  fixes k t :: real
  assumes "0 < k"
  shows "\<bar>(t + t / k) - t\<bar> = 1 / k * \<bar>t\<bar>"
proof -
  have "(t + t / k) - t = t / k" by simp
  then have "\<bar>(t + t / k) - t\<bar> = \<bar>t\<bar> / \<bar>k\<bar>" by (simp only: abs_divide)
  then show ?thesis using assms by simp
qed

lemma ieee_worstRound: "ieee worstRound (1 / 2 ^ 53) (1 / 2 ^ 1074) (2 ^ 1023)"
proof -
  have "\<bar>worstRound t - t\<bar> \<le> 1 / 2 ^ 53 * \<bar>t\<bar> + 1 / 2 ^ 1074" for t
  proof -
    have "\<bar>worstRound t - t\<bar> = 1 / 2 ^ 53 * \<bar>t\<bar>"
      unfolding worstRound_def by (rule inflate_err) simp
    then show ?thesis by simp
  qed
  then show ?thesis by (simp add: ieee_def worstRound_def)
qed

lemma numPre_worstRound:
  "numPre worstRound (1 / 2 ^ 53) (1 / 2 ^ 1074) (2 ^ 1023) (1 / 2 ^ 300) 25000"
  using ieee_worstRound by (simp add: numPre_def)

lemma scene_example:
  "scenePre worstRound (1 / 2 ^ 53) (1 / 2 ^ 1074) (2 ^ 1023) (1 / 2 ^ 300) 1000 (2 / 5)
     (pointOnAxis (1 / 2)) [onAxis 0 1, onAxis 10 1]"
proof -
  have "numPre worstRound (1 / 2 ^ 53) (1 / 2 ^ 1074) (2 ^ 1023) (1 / 2 ^ 300) (5 * 1000)"
    by (rule numPre_mono [OF numPre_worstRound]) simp_all
  then show ?thesis
    by (simp add: scenePre_def planarDistance_onAxis) (simp add: onAxis_def pointOnAxis_def)
qed

lemma separated_example:
  "separatedBy (2048 * (1 / 2 ^ 53 * 1000)) (2 / 5) [onAxis 0 1, onAxis 10 1]"
  by (simp add: apartBy_def planarDistance_axis_centre) (simp add: onAxis_def)

subsection \<open>Residual overlap\<close>

text \<open>
  Claim C1, as stated, fails. With obstacles of radius 1 at (0, 0) and (2, 0), body
  radius 0.4 and candidate (0.5, 0, 0), the first obstacle pushes the position to
  x = 1.4 and the second pushes it back to x = 0.6, which is 0.6 from the first centre:
  less than 0.4 + 1 by more than a half.
\<close>

theorem residual_overlap_counterexample:
  "planarDistance (checkCollisions True (2 / 5) [onAxis 0 1, onAxis 2 1] (pointOnAxis (1 / 2)))
     (onAxis 0 1) < 2 / 5 + radius (onAxis 0 1) - 1 / 2"
proof -
  have "checkCollisions True (2 / 5) [onAxis 0 1, onAxis 2 1] (pointOnAxis (1 / 2))
        = pointOnAxis (3 / 5)"
    by (simp add: checkCollisions_def collideStep_onAxis)
  then show ?thesis
    by (simp add: planarDistance_onAxis) (simp add: onAxis_def)
qed

text \<open>
  Claim C1, amended. Let the resolver run in rounded arithmetic with unit roundoff
  \<open>u\<close>, on a candidate and obstacles within the sizes \<open>delta\<close> and \<open>M\<close>: planar
  coordinates of magnitude at most \<open>M\<close>, every sum of body radius and obstacle radius
  between \<open>delta\<close> and \<open>M\<close>, and the candidate at least \<open>delta\<close> from every
  obstacle's centre. When the obstacles are separated by \<open>2048 * u * M\<close>, then after
  \<open>checkCollisions\<close> the planar distance of the corrected position to every
  obstacle's centre is at least the body radius plus the obstacle's radius minus
  \<open>256 * u * M\<close>. For doubles and \<open>M = 1000\<close> this tolerance is below \<open>3 * 10^-11\<close>.
\<close>

theorem rounded_resolved:
  assumes sp: "scenePre rnd u eta Omega delta M R p cs"
    and sep: "separatedBy (2048 * (u * M)) R cs"
  shows "\<forall>c \<in> set cs.
           R + radius c - 256 * (u * M) \<le> planarDistance (checkCollisionsFl rnd True R cs p) c"
proof
  fix c assume c: "c \<in> set cs"
  let ?q = "foldl (collideStepFl rnd R) p cs"
  have np5: "numPre rnd u eta Omega delta (5 * M)" and M: "1 \<le> M"
    and mc: "R + radius c \<le> M" "delta \<le> R + radius c"
    using sp c by (simp_all add: scenePre_def)
  have u0: "0 \<le> u" and delta: "0 < delta" using np5 by (simp_all add: numPre_def)
  define uM where "uM = u * M"
  have uM0: "0 \<le> uM" using u0 M by (simp add: uM_def)
  have "R + radius c \<le> 1 * M" using mc(1) by simp
  then have um: "u * (R + radius c) \<le> 1 * uM" unfolding uM_def using u0 by (intro mult_le_atom)
  have "261 * (u * M) \<le> 2048 * (u * M)" using uM0 unfolding uM_def by linarith
  then have sep': "separatedBy (261 * (u * M)) R cs" by (rule separatedBy_mono [OF sep])
  from foldFl_cases [OF sp sep']
  consider (same) "?q = p" "\<forall>c \<in> set cs. R + radius c - 25 * (u * (R + radius c)) \<le> planarDistance p c"
    | (pushed) b where "b \<in> set cs" "\<bar>planarDistance ?q b - (R + radius b)\<bar> \<le> 211 * (u * M)"
        "\<forall>c \<in> set cs. c \<noteq> b \<longrightarrow> R + radius c + 50 * (u * (R + radius c)) \<le> planarDistance ?q c"
    by blast
  then have "R + radius c - 256 * uM \<le> planarDistance ?q c"
  proof cases
    case same
    then have "R + radius c - 25 * (u * (R + radius c)) \<le> planarDistance ?q c" using c by simp
    then show ?thesis using um uM0 by linarith
  next
    case pushed
    show ?thesis
    proof (cases "c = b")
      case True
      then show ?thesis using pushed(2) uM0 by (simp add: uM_def)
    next
      case False
      then have "R + radius c + 50 * (u * (R + radius c)) \<le> planarDistance ?q c"
        using pushed(3) c by simp
      moreover have "0 \<le> u * (R + radius c)" using u0 mc(2) delta by simp
      ultimately show ?thesis using uM0 by linarith
    qed
  qed
  then show "R + radius c - 256 * (u * M) \<le> planarDistance (checkCollisionsFl rnd True R cs p) c"
    by (simp add: checkCollisionsFl_def uM_def)
qed

theorem rounded_resolved_witness:
  "scenePre worstRound (1 / 2 ^ 53) (1 / 2 ^ 1074) (2 ^ 1023) (1 / 2 ^ 300) 1000 (2 / 5)
     (pointOnAxis (1 / 2)) [onAxis 0 1, onAxis 10 1]
   \<and> separatedBy (2048 * (1 / 2 ^ 53 * 1000)) (2 / 5) [onAxis 0 1, onAxis 10 1]
   \<and> 2 / 5 + radius (onAxis 0 1) - 256 * (1 / 2 ^ 53 * 1000)
       \<le> planarDistance
            (checkCollisionsFl worstRound True (2 / 5) [onAxis 0 1, onAxis 10 1]
               (pointOnAxis (1 / 2)))
            (onAxis 0 1)
   \<and> 2 / 5 + radius (onAxis 10 1) - 256 * (1 / 2 ^ 53 * 1000)
       \<le> planarDistance
            (checkCollisionsFl worstRound True (2 / 5) [onAxis 0 1, onAxis 10 1]
               (pointOnAxis (1 / 2)))
            (onAxis 10 1)"
  using rounded_resolved [OF scene_example separated_example]
    scene_example separated_example
  by simp

subsection \<open>A candidate at an obstacle's centre\<close>

text \<open>
  Claim C2, as stated, fails: no fallback direction is used. With one obstacle of radius
  1 at (0, 0), body radius 0.4 and the candidate at (0, 0, 0), the resolver returns the
  candidate itself.
\<close>

theorem centre_not_pushed_counterexample: "checkCollisions True (2 / 5) [onAxis 0 1] (pointOnAxis 0) = pointOnAxis 0"
  by (simp add: checkCollisions_def collideStep_onAxis)

text \<open>
  Claim C2, amended. When the candidate's planar distance to an obstacle's centre is 0,
  \<open>normalize()\<close> divides by 1 and returns the zero vector, so the push vector of that
  obstacle is the zero vector and the obstacle leaves the position as it was; the step
  has no branch that throws.
\<close>

theorem centre_step_identity:
  "planarDistance p c = 0 \<Longrightarrow>
     normalize3 \<lparr>x = x p - x (position c), y = 0, z = z p - z (position c)\<rparr>
       = \<lparr>x = 0, y = 0, z = 0\<rparr>
     \<and> collideStep r p c = p
     \<and> checkCollisions hasMesh r [c] p = p"
  by (simp add: collideStep_centre checkCollisions_def)
    (simp add: planarDistance_zero_iff normalize3_def divideScalar3_def multiplyScalar3_def)

theorem centre_step_identity_witness:
  "planarDistance (pointOnAxis 3) (onAxis 3 1) = 0
   \<and> collideStep (2 / 5) (pointOnAxis 3) (onAxis 3 1) = pointOnAxis 3
   \<and> checkCollisions True (2 / 5) [onAxis 3 1] (pointOnAxis 3) = pointOnAxis 3"
proof -
  have h: "planarDistance (pointOnAxis 3) (onAxis 3 1) = 0"
    by (simp add: planarDistance_onAxis)
  from centre_step_identity [OF h, of "2 / 5" True] h show ?thesis by simp
qed

subsection \<open>Resolving twice\<close>

text \<open>
  Claim C7, as stated, fails. With obstacles of radius 0.2 at (1, 0) and of radius 1 at
  (0, 0), in this order, body radius 0.4 and candidate (0.5, 0, 0), the resolver returns
  x = 1.4, and applied to that it returns x = 1.6: the second call moves the position
  by 0.2.
\<close>

theorem resolve_twice_counterexample:
  "x (checkCollisions True (2 / 5) [onAxis 1 (1 / 5), onAxis 0 1]
        (checkCollisions True (2 / 5) [onAxis 1 (1 / 5), onAxis 0 1] (pointOnAxis (1 / 2))))
   - x (checkCollisions True (2 / 5) [onAxis 1 (1 / 5), onAxis 0 1] (pointOnAxis (1 / 2)))
   = 1 / 5"
proof -
  have a: "checkCollisions True (2 / 5) [onAxis 1 (1 / 5), onAxis 0 1] (pointOnAxis (1 / 2))
        = pointOnAxis (7 / 5)"
    by (simp add: checkCollisions_def collideStep_onAxis)
  have b: "checkCollisions True (2 / 5) [onAxis 1 (1 / 5), onAxis 0 1] (pointOnAxis (7 / 5))
        = pointOnAxis (8 / 5)"
    by (simp add: checkCollisions_def collideStep_onAxis)
  show ?thesis
    by (simp add: a b) (simp add: pointOnAxis_def)
qed

text \<open>
  Claim C7, amended. Under the conditions of the amended claim C1, with sizes that
  leave room for a second run (\<open>25 * M\<close> within the sizes, every sum of radii at least
  \<open>delta + 256 * u * M\<close>) and a candidate whose y coordinate is a number of the
  format, applying \<open>checkCollisions\<close> to its own result with the same obstacles and
  body radius moves the position by at most \<open>2048 * u * M\<close>. For doubles and
  \<open>M = 1000\<close> this is below \<open>3 * 10^-10\<close>.
\<close>

theorem rounded_near_fixed_point:
  assumes sp: "scenePre rnd u eta Omega delta M R p cs"
    and np25: "numPre rnd u eta Omega delta (25 * M)"
    and py: "rnd (y p) = y p"
    and big: "\<forall>c \<in> set cs. delta + 256 * (u * M) \<le> R + radius c"
    and sep: "separatedBy (2048 * (u * M)) R cs"
  shows "moved (checkCollisionsFl rnd hasMesh R cs p)
           (checkCollisionsFl rnd hasMesh R cs (checkCollisionsFl rnd hasMesh R cs p))
         \<le> 2048 * (u * M)"
proof -
  let ?f = "\<lambda>p. foldl (collideStepFl rnd R) p cs"
  have M: "1 \<le> M" using sp by (simp add: scenePre_def)
  have u0: "0 \<le> u" using np25 by (simp add: numPre_def)
  define uM where "uM = u * M"
  have uM0: "0 \<le> uM" using u0 M by (simp add: uM_def)
  have g1: "261 * (u * M) \<le> 2048 * (u * M)" using uM0 unfolding uM_def by linarith
  have "u * (5 * M) = 5 * (u * M)" by simp
  then have g2: "261 * (u * (5 * M)) \<le> 2048 * (u * M)" using uM0 unfolding uM_def by linarith
  have sep1: "separatedBy (261 * (u * M)) R cs" by (rule separatedBy_mono [OF sep g1])
  have sep2: "separatedBy (261 * (u * (5 * M))) R cs" by (rule separatedBy_mono [OF sep g2])
  have main: "moved (?f p) (?f (?f p)) \<le> 2048 * uM"
  proof -
    from foldFl_cases [OF sp sep1]
    consider (same) "?f p = p"
      | (pushed) b where "b \<in> set cs"
          "\<bar>planarDistance (?f p) b - (R + radius b)\<bar> \<le> 211 * (u * M)"
          "\<forall>c \<in> set cs. c \<noteq> b \<longrightarrow>
             R + radius c + 50 * (u * (R + radius c)) \<le> planarDistance (?f p) c"
          "y (?f p) = rnd (y p)" "\<bar>x (?f p)\<bar> \<le> 5 * M" "\<bar>z (?f p)\<bar> \<le> 5 * M"
      by blast
    then show ?thesis
    proof cases
      case same
      then show ?thesis using uM0 by (simp add: moved_self)
    next
      case pushed
      define q where "q = ?f p"
      have yq: "y q = y p" using pushed(4) py by (simp add: q_def)
      have near: "R + radius c - 211 * uM \<le> planarDistance q c" if c: "c \<in> set cs" for c
      proof (cases "c = b")
        case True
        then show ?thesis using pushed(2) by (simp add: q_def uM_def)
      next
        case False
        then have "R + radius c + 50 * (u * (R + radius c)) \<le> planarDistance q c"
          using pushed(3) c by (simp add: q_def)
        moreover have "0 \<le> u * (R + radius c)"
        proof -
          have "0 < delta" using np25 by (simp add: numPre_def)
          then have "0 \<le> R + radius c" using big c uM0 by (auto simp add: uM_def)
          then show ?thesis using u0 by simp
        qed
        ultimately show ?thesis using uM0 by linarith
      qed
      have sq: "scenePre rnd u eta Omega delta (5 * M) R q cs"
      proof -
        have "\<bar>x (position c)\<bar> \<le> 5 * M \<and> \<bar>z (position c)\<bar> \<le> 5 * M
            \<and> delta \<le> R + radius c \<and> R + radius c \<le> 5 * M \<and> delta \<le> planarDistance q c"
          if c: "c \<in> set cs" for c
        proof -
          have "\<bar>x (position c)\<bar> \<le> M" "\<bar>z (position c)\<bar> \<le> M" "delta \<le> R + radius c"
            "R + radius c \<le> M"
            using sp c by (simp_all add: scenePre_def)
          moreover have "delta + 256 * uM \<le> R + radius c" using big c by (simp add: uM_def)
          ultimately show ?thesis using near [OF c] M uM0 by linarith
        qed
        then show ?thesis using np25 M pushed(5,6) by (simp add: scenePre_def q_def)
      qed
      from foldFl_cases [OF sq sep2]
      consider (same2) "?f q = q"
        | (pushed2) b' where "b' \<in> set cs"
            "planarMove q (?f q)
               \<le> max (R + radius b' - planarDistance q b') (48 * (u * (5 * M))) + 195 * (u * (5 * M))"
            "y (?f q) = rnd (y q)"
        by blast
      then have "moved q (?f q) \<le> 2048 * uM"
      proof cases
        case same2
        then show ?thesis using uM0 by (simp add: moved_self)
      next
        case pushed2
        have "y (?f q) = y q" using pushed2(3) yq py by simp
        then have "moved q (?f q) = planarMove q (?f q)" by (rule moved_planar)
        moreover have "R + radius b' - planarDistance q b' \<le> 211 * uM"
          using near [OF pushed2(1)] by linarith
        moreover have "u * (5 * M) = 5 * uM" by (simp add: uM_def)
        ultimately show ?thesis using pushed2(2) uM0 by linarith
      qed
      then show ?thesis by (simp add: q_def)
    qed
  qed
  show ?thesis
  proof (cases hasMesh)
    case True
    then show ?thesis using main by (simp add: checkCollisionsFl_def uM_def)
  next
    case False
    then show ?thesis using uM0 by (simp add: checkCollisionsFl_def moved_self uM_def)
  qed
qed

theorem rounded_near_fixed_point_witness:
  "scenePre worstRound (1 / 2 ^ 53) (1 / 2 ^ 1074) (2 ^ 1023) (1 / 2 ^ 300) 1000 (2 / 5)
     (pointOnAxis (1 / 2)) [onAxis 0 1, onAxis 10 1]
   \<and> numPre worstRound (1 / 2 ^ 53) (1 / 2 ^ 1074) (2 ^ 1023) (1 / 2 ^ 300) (25 * 1000)
   \<and> worstRound (y (pointOnAxis (1 / 2))) = y (pointOnAxis (1 / 2))
   \<and> 1 / 2 ^ 300 + 256 * (1 / 2 ^ 53 * 1000) \<le> 2 / 5 + radius (onAxis 0 1)
   \<and> 1 / 2 ^ 300 + 256 * (1 / 2 ^ 53 * 1000) \<le> 2 / 5 + radius (onAxis 10 1)
   \<and> separatedBy (2048 * (1 / 2 ^ 53 * 1000)) (2 / 5) [onAxis 0 1, onAxis 10 1]
   \<and> moved (checkCollisionsFl worstRound True (2 / 5) [onAxis 0 1, onAxis 10 1]
               (pointOnAxis (1 / 2)))
        (checkCollisionsFl worstRound True (2 / 5) [onAxis 0 1, onAxis 10 1]
           (checkCollisionsFl worstRound True (2 / 5) [onAxis 0 1, onAxis 10 1]
              (pointOnAxis (1 / 2))))
       \<le> 2048 * (1 / 2 ^ 53 * 1000)"
proof -
  have h2: "numPre worstRound (1 / 2 ^ 53) (1 / 2 ^ 1074) (2 ^ 1023) (1 / 2 ^ 300) (25 * 1000)"
    using numPre_worstRound by simp
  have h3: "worstRound (y (pointOnAxis (1 / 2))) = y (pointOnAxis (1 / 2))"
    by (simp add: worstRound_def pointOnAxis_def)
  have h4: "\<forall>c \<in> set [onAxis 0 1, onAxis 10 1].
              1 / 2 ^ 300 + 256 * (1 / 2 ^ 53 * 1000) \<le> 2 / 5 + radius c"
    by (simp add: onAxis_def)
  from rounded_near_fixed_point [OF scene_example h2 h3 h4 separated_example, of True]
    scene_example h2 h3 h4 separated_example
  show ?thesis by simp
qed

subsection \<open>Keyboard move vector\<close>

text \<open>
  Claim C3, as stated, fails. With the left key and the right key both held, the x axis
  of the move vector is 1, not 0: the test of \<open>KeyD\<close> comes last and assigns.
\<close>

theorem opposing_keys_counterexample:
  "vx (input_move (updateInput ((initialGame False [])\<lparr>input_keys := {''KeyA'', ''KeyD''}\<rparr>)))
   \<noteq> spec_axis (''KeyD'' \<in> {''KeyA'', ''KeyD''}) (''KeyA'' \<in> {''KeyA'', ''KeyD''})"
  by (simp add: updateInput_def initialGame_def spec_axis_def Let_def)

text \<open>
  Claim C3, amended. In keyboard mode, for every set of held keys, after
  \<open>updateInput\<close> the x axis of the move vector is +1 if the right key is held,
  otherwise -1 if the left key is held, otherwise 0; the y axis is -1 if the back key is
  held, otherwise +1 if the forward key is held, otherwise 0. On an axis whose two keys
  are not both held this is the sum the specification gives.
\<close>

theorem keyboard_move_vector:
  assumes "\<not> isTouchDevice s"
  shows "vx (input_move (updateInput s)) =
           (if ''KeyD'' \<in> input_keys s then 1 else if ''KeyA'' \<in> input_keys s then - 1 else 0)
       \<and> vy (input_move (updateInput s)) =
           (if ''KeyS'' \<in> input_keys s then - 1 else if ''KeyW'' \<in> input_keys s then 1 else 0)
       \<and> (\<not> (''KeyD'' \<in> input_keys s \<and> ''KeyA'' \<in> input_keys s) \<longrightarrow>
            vx (input_move (updateInput s))
              = spec_axis (''KeyD'' \<in> input_keys s) (''KeyA'' \<in> input_keys s))
       \<and> (\<not> (''KeyW'' \<in> input_keys s \<and> ''KeyS'' \<in> input_keys s) \<longrightarrow>
            vy (input_move (updateInput s))
              = spec_axis (''KeyW'' \<in> input_keys s) (''KeyS'' \<in> input_keys s))"
  using assms by (simp add: updateInput_def spec_axis_def Let_def)

theorem keyboard_move_vector_witness:
  "\<not> isTouchDevice ((initialGame False [])\<lparr>input_keys := {''KeyW'', ''KeyA'', ''KeyD''}\<rparr>)
   \<and> vx (input_move (updateInput ((initialGame False [])\<lparr>input_keys := {''KeyW'', ''KeyA'', ''KeyD''}\<rparr>))) = 1
   \<and> vy (input_move (updateInput ((initialGame False [])\<lparr>input_keys := {''KeyW'', ''KeyA'', ''KeyD''}\<rparr>))) = 1"
proof -
  have h: "\<not> isTouchDevice ((initialGame False [])\<lparr>input_keys := {''KeyW'', ''KeyA'', ''KeyD''}\<rparr>)"
    by (simp add: initialGame_def)
  from keyboard_move_vector [OF h] h show ?thesis by (simp add: initialGame_def)
qed

subsection \<open>Camera pitch\<close>

lemma updateInput_phi:
  "cameraControls_phi (updateInput s) = max (- pi / 3) (min (pi / 3) (vy (input_look s)))"
  by (simp add: updateInput_def Let_def)

lemma clamp_bounds:
  fixes lo hi v :: real
  assumes "lo \<le> hi"
  shows "lo \<le> max lo (min hi v) \<and> max lo (min hi v) \<le> hi"
  using assms by (simp add: max_def min_def)

text \<open>
  Claim C5. After \<open>updateInput\<close>, from any state and after any sequence of look
  deltas of any size, the pitch \<open>cameraControls.phi\<close> lies between \<open>-pi/3\<close> and
  \<open>pi/3\<close>. The start state is arbitrary, so it stands for the state after any touch
  events as well.
\<close>

theorem pitch_clamped:
  "- pi / 3 \<le> cameraControls_phi (updateInput (foldl onMouseMove s evs))
   \<and> cameraControls_phi (updateInput (foldl onMouseMove s evs)) \<le> pi / 3"
proof -
  have "- pi / 3 \<le> pi / 3" using pi_gt_zero by simp
  then show ?thesis unfolding updateInput_phi by (rule clamp_bounds)
qed

subsection \<open>Touch handlers\<close>

lemma length2_axis: "length2 \<lparr>vx = a, vy = 0\<rparr> = \<bar>a\<bar>"
  by (simp add: length2_def)

lemma joystickHeld_eq:
  "joystickHeld = (initialGame True [])
     \<lparr>touch_move_id := Some 7,
      touch_move_start := \<lparr>vx = 100, vy = 300\<rparr>,
      touch_move_current := \<lparr>vx = 100, vy = 300\<rparr>,
      touch_move_joystick := True\<rparr>"
  by (simp add: joystickHeld_def onTouchStart_def touchStartStep_def initialGame_def)

text \<open>
  Claim C8. A touch-move of the touch that holds the joystick sets the speed to
  \<open>lerp(baseSpeed, sprintSpeed, min(dragDistance, 60) / 60)\<close>, where the drag distance
  is the length of the touch position minus the start position. A drag of 30 pixels gives
  \<open>lerp(base, sprint, 0.5)\<close>.
\<close>

theorem joystick_speed:
  assumes "touch_move_id s = Some (identifier t)" and "touch_move_joystick s"
  shows "\<exists>s'. touchMoveStep s t = Inr s' \<and>
           player_currentSpeed s' =
             lerp (player_baseSpeed s) (player_sprintSpeed s)
               (min (length2 (sub2 \<lparr>vx = clientX t, vy = clientY t\<rparr> (touch_move_start s))) 60 / 60)"
  using assms by (simp add: touchMoveStep_def Let_def)


theorem joystick_speed_witness:
  "touch_move_id joystickHeld = Some (identifier \<lparr>identifier = 7, clientX = 130, clientY = 300\<rparr>)
   \<and> touch_move_joystick joystickHeld
   \<and> (\<exists>s'. touchMoveStep joystickHeld \<lparr>identifier = 7, clientX = 130, clientY = 300\<rparr> = Inr s'
          \<and> player_currentSpeed s' = lerp 2 5 (1 / 2))"
proof -
  have h1: "touch_move_id joystickHeld
              = Some (identifier \<lparr>identifier = 7, clientX = 130, clientY = 300\<rparr>)"
    by (simp add: joystickHeld_eq)
  have h2: "touch_move_joystick joystickHeld"
    by (simp add: joystickHeld_eq)
  from joystick_speed [OF h1 h2] h1 h2 show ?thesis
    by (simp add: joystickHeld_eq initialGame_def sub2_def length2_axis)
qed

text \<open>
  Claim C9. A touch-end or touch-cancel event none of whose touches has the identifier
  of the move slot or of the look slot leaves the whole state as it was; the handler has
  no branch that throws.
\<close>

theorem untracked_touch_end_ignored:
  assumes "\<forall>t \<in> set touches.
             Some (identifier t) \<noteq> touch_move_id s \<and> Some (identifier t) \<noteq> touch_look_id s"
  shows "onTouchEnd s touches = s"
  using assms unfolding onTouchEnd_def
  by (induction touches) (simp_all add: touchEndStep_def)

theorem untracked_touch_end_ignored_witness:
  "Some (identifier \<lparr>identifier = 9, clientX = 500, clientY = 20\<rparr>) \<noteq> touch_move_id joystickHeld
   \<and> Some (identifier \<lparr>identifier = 9, clientX = 500, clientY = 20\<rparr>) \<noteq> touch_look_id joystickHeld
   \<and> onTouchEnd joystickHeld [\<lparr>identifier = 9, clientX = 500, clientY = 20\<rparr>] = joystickHeld"
proof -
  have h: "\<forall>t \<in> set [\<lparr>identifier = 9, clientX = 500, clientY = 20\<rparr>].
      Some (identifier t) \<noteq> touch_move_id joystickHeld
      \<and> Some (identifier t) \<noteq> touch_look_id joystickHeld"
    by (simp add: joystickHeld_eq initialGame_def)
  from untracked_touch_end_ignored [OF h] h show ?thesis by simp
qed

subsection \<open>Decay of the velocity without input\<close>

lemma updateInput_fields:
  "player_velocity (updateInput s) = player_velocity s"
  "player_hasMesh (updateInput s) = player_hasMesh s"
  "isTouchDevice (updateInput s) = isTouchDevice s"
  "input_keys (updateInput s) = input_keys s"
  by (simp_all add: updateInput_def Let_def)

lemma updateInput_idle:
  "moveIdle s \<Longrightarrow> lengthSq2 (input_move (updateInput s)) = 0"
  by (simp add: moveIdle_def updateInput_def Let_def lengthSq2_def split: if_splits)

lemma updatePlayer_fields:
  "player_hasMesh (updatePlayer a dt s) = player_hasMesh s"
  "isTouchDevice (updatePlayer a dt s) = isTouchDevice s"
  "input_keys (updatePlayer a dt s) = input_keys s"
  "input_move (updatePlayer a dt s) = input_move s"
  by (simp_all add: updatePlayer_def Let_def)

lemma updatePlayer_idle_velocity:
  "lengthSq2 (input_move s) = 0 \<Longrightarrow>
     player_velocity (updatePlayer a dt s)
       = lerp3 (player_velocity s) \<lparr>x = 0, y = 0, z = 0\<rparr> (10 * dt)"
  by (simp add: updatePlayer_def Let_def)

lemma update_idle:
  assumes "moveIdle s" and "player_hasMesh s"
  shows "player_velocity (update a dt s)
           = lerp3 (player_velocity s) \<lparr>x = 0, y = 0, z = 0\<rparr> (10 * dt)"
    and "moveIdle (update a dt s)"
    and "player_hasMesh (update a dt s)"
proof -
  have u: "update a dt s = updatePlayer a dt (updateInput s)"
    using assms(2) by (simp add: update_def Let_def updateInput_fields)
  show "player_velocity (update a dt s)
           = lerp3 (player_velocity s) \<lparr>x = 0, y = 0, z = 0\<rparr> (10 * dt)"
    using assms(1) by (simp add: u updatePlayer_idle_velocity updateInput_idle updateInput_fields)
  show "player_hasMesh (update a dt s)"
    using assms(2) by (simp add: u updatePlayer_fields updateInput_fields)
  show "moveIdle (update a dt s)"
    using assms(1) updateInput_idle [OF assms(1)]
    by (simp add: u moveIdle_def updatePlayer_fields updateInput_fields)
qed

lemma lerp3_zero_scale:
  "lerp3 v \<lparr>x = 0, y = 0, z = 0\<rparr> alpha = multiplyScalar3 v (1 - alpha)"
  by (simp add: lerp3_def multiplyScalar3_def algebra_simps)

lemma multiplyScalar3_twice:
  "multiplyScalar3 (multiplyScalar3 v j) k = multiplyScalar3 v (j * k)"
  by (simp add: multiplyScalar3_def mult.assoc)

lemma frames_idle_velocity:
  "moveIdle s \<Longrightarrow> player_hasMesh s \<Longrightarrow>
     player_velocity (frames dt s as)
       = multiplyScalar3 (player_velocity s) ((1 - 10 * dt) ^ length as)"
proof (induction as arbitrary: s)
  case Nil
  then show ?case by (simp add: multiplyScalar3_def)
next
  case (Cons a as)
  have "player_velocity (frames dt (update a dt s) as)
          = multiplyScalar3 (player_velocity (update a dt s)) ((1 - 10 * dt) ^ length as)"
    using Cons.prems by (intro Cons.IH update_idle)
  then show ?case
    using Cons.prems by (simp add: update_idle(1) lerp3_zero_scale multiplyScalar3_twice)
qed

lemma length3_scale: "length3 (multiplyScalar3 v k) = length3 v * \<bar>k\<bar>"
proof -
  have "(x v * k) * (x v * k) + (y v * k) * (y v * k) + (z v * k) * (z v * k)
          = (x v * x v + y v * y v + z v * z v) * (k * k)"
    by (simp add: algebra_simps)
  then have "length3 (multiplyScalar3 v k)
          = sqrt ((x v * x v + y v * y v + z v * z v) * (k * k))"
    by (simp add: length3_def multiplyScalar3_def)
  also have "\<dots> = sqrt (x v * x v + y v * y v + z v * z v) * sqrt (k * k)"
    by (rule real_sqrt_mult)
  finally show ?thesis by (simp add: length3_def)
qed

lemma geometric_decay:
  fixes q L eps :: real
  assumes "\<bar>q\<bar> < 1" and "0 \<le> L" and "0 < eps"
  shows "\<exists>N. \<forall>n\<ge>N. L * \<bar>q ^ n\<bar> < eps"
proof -
  have "0 < eps / (L + 1)" using assms by simp
  from real_arch_pow_inv [OF this assms(1)]
  obtain N where N: "\<bar>q\<bar> ^ N < eps / (L + 1)" by blast
  have "L * \<bar>q ^ n\<bar> < eps" if "N \<le> n" for n
  proof -
    have "\<bar>q\<bar> ^ n \<le> \<bar>q\<bar> ^ N"
      using that assms(1) by (intro power_decreasing) simp_all
    then have "\<bar>q\<bar> ^ n < eps / (L + 1)" using N by linarith
    then have "\<bar>q\<bar> ^ n * (L + 1) < eps" using assms(2) by (simp add: pos_less_divide_eq)
    moreover have "L * \<bar>q\<bar> ^ n \<le> \<bar>q\<bar> ^ n * (L + 1)"
      by (simp add: algebra_simps)
    ultimately show ?thesis by (simp add: power_abs)
  qed
  then show ?thesis by blast
qed

text \<open>
  Claim C4, as stated, fails. The code passes \<open>10 * deltaTime\<close> to \<open>lerp\<close> as it
  is. With velocity (1, 0, 0), no input and \<open>deltaTime = 0.2\<close> a frame gives the
  velocity (-1, 0, 0), where the specification's formula gives (0, 0, 0), and the
  magnitude is the same after the frame as before.
\<close>

theorem unclamped_decay_counterexample:
  "player_velocity (update 0 (1 / 5) coasting) \<noteq> spec_decay (player_velocity coasting) (1 / 5)
   \<and> length3 (player_velocity (update 0 (1 / 5) coasting)) = length3 (player_velocity coasting)"
proof -
  have i: "moveIdle coasting" "player_hasMesh coasting"
    by (simp_all add: coasting_def moveIdle_def initialGame_def)
  have v: "player_velocity (update 0 (1 / 5) coasting) = \<lparr>x = - 1, y = 0, z = 0\<rparr>"
    by (simp add: update_idle(1) [OF i]) (simp add: coasting_def lerp3_def)
  show ?thesis
    by (simp add: v) (simp add: coasting_def spec_decay_def lerp3_def length3_def)
qed

text \<open>
  Claim C4, amended. With no move input and the mesh loaded, a frame sets the velocity
  to \<open>lerp(velocity, 0, 10 * dt)\<close>, which is the specification's formula when
  \<open>dt \<le> 0.1\<close>; and for every starting velocity, every fixed \<open>dt\<close> with
  \<open>0 < dt < 0.2\<close> and every \<open>eps > 0\<close>, after enough such frames the magnitude of
  the velocity stays below \<open>eps\<close>.
\<close>

theorem zero_input_decay:
  assumes "moveIdle s" and "player_hasMesh s" and "0 < dt" and "dt < 1 / 5" and "0 < eps"
  shows "player_velocity (update a dt s)
           = lerp3 (player_velocity s) \<lparr>x = 0, y = 0, z = 0\<rparr> (10 * dt)
       \<and> (dt \<le> 1 / 10 \<longrightarrow> player_velocity (update a dt s) = spec_decay (player_velocity s) dt)
       \<and> (\<exists>N. \<forall>as. N \<le> length as \<longrightarrow> length3 (player_velocity (frames dt s as)) < eps)"
proof -
  have one: "player_velocity (update a dt s)
           = lerp3 (player_velocity s) \<lparr>x = 0, y = 0, z = 0\<rparr> (10 * dt)"
    using assms(1,2) by (rule update_idle(1))
  have two: "dt \<le> 1 / 10 \<longrightarrow> player_velocity (update a dt s) = spec_decay (player_velocity s) dt"
  proof
    assume "dt \<le> 1 / 10"
    then have "min 1 (10 * dt) = 10 * dt" by simp
    then show "player_velocity (update a dt s) = spec_decay (player_velocity s) dt"
      by (simp only: one spec_decay_def)
  qed
  have q: "\<bar>1 - 10 * dt\<bar> < 1" using assms(3,4) by (simp add: abs_less_iff)
  have L: "0 \<le> length3 (player_velocity s)" by (simp add: length3_def)
  from geometric_decay [OF q L assms(5)]
  obtain N where N: "\<forall>n\<ge>N. length3 (player_velocity s) * \<bar>(1 - 10 * dt) ^ n\<bar> < eps"
    by blast
  have "\<forall>as. N \<le> length as \<longrightarrow> length3 (player_velocity (frames dt s as)) < eps"
    using N assms(1,2) by (simp add: frames_idle_velocity length3_scale)
  with one two show ?thesis by blast
qed

theorem zero_input_decay_witness:
  "moveIdle coasting \<and> player_hasMesh coasting \<and> (0::real) < 1 / 60 \<and> (1::real) / 60 < 1 / 5
   \<and> (0::real) < 1 / 100
   \<and> player_velocity (update 0 (1 / 60) coasting) = \<lparr>x = 5 / 6, y = 0, z = 0\<rparr>
   \<and> (\<exists>N. \<forall>as. N \<le> length as \<longrightarrow>
          length3 (player_velocity (frames (1 / 60) coasting as)) < 1 / 100)"
proof -
  have h1: "moveIdle coasting" by (simp add: coasting_def moveIdle_def initialGame_def)
  have h2: "player_hasMesh coasting" by (simp add: coasting_def)
  have h3: "(0::real) < 1 / 60" and h4: "(1::real) / 60 < 1 / 5" and h5: "(0::real) < 1 / 100"
    by simp_all
  from zero_input_decay [OF h1 h2 h3 h4 h5, of 0] h1 h2 show ?thesis
    by (simp add: coasting_def lerp3_def)
qed

end
